theory Spec2Isabelle
  imports Main
begin

section \<open>Python text\<close>

text \<open>
  A Python \<^verbatim>\<open>str\<close> is a sequence of Unicode code points; a code point is a natural
  number here, so \<open>length\<close> counts what \<^verbatim>\<open>len\<close> counts. \<open>ustr\<close> turns a
  literal into such a sequence (its characters are below 256).
\<close>

type_synonym pychar = nat
type_synonym pystr = "pychar list"

definition ustr :: "string \<Rightarrow> pystr" where
  "ustr s = map of_char s"

abbreviation nl :: pychar where "nl \<equiv> 10"
abbreviation cr :: pychar where "cr \<equiv> 13"
abbreviation space :: pychar where "space \<equiv> 32"
abbreviation colon :: pychar where "colon \<equiv> 58"
abbreviation slash :: pychar where "slash \<equiv> 47"
abbreviation backslash :: pychar where "backslash \<equiv> 92"
abbreviation backtick :: pychar where "backtick \<equiv> 96"

text \<open>
  The characters \<^verbatim>\<open>str.strip\<close>, \<^verbatim>\<open>str.lstrip\<close> and the pattern \<^verbatim>\<open>\s\<close> of
  \<^verbatim>\<open>re\<close> treat as whitespace (\<^verbatim>\<open>str.isspace\<close>): U+0009..U+000D, U+001C..U+0020,
  U+0085, U+00A0, U+1680, U+2000..U+200A, U+2028, U+2029, U+202F, U+205F, U+3000.
\<close>

definition is_space :: "pychar \<Rightarrow> bool" where
  "is_space c \<longleftrightarrow>
     (9 \<le> c \<and> c \<le> 13) \<or> (28 \<le> c \<and> c \<le> 32) \<or> c = 133 \<or> c = 160 \<or> c = 5760 \<or>
     (8192 \<le> c \<and> c \<le> 8202) \<or> c = 8232 \<or> c = 8233 \<or> c = 8239 \<or> c = 8287 \<or>
     c = 12288"

definition py_lstrip :: "pystr \<Rightarrow> pystr" where
  "py_lstrip s = dropWhile is_space s"

definition py_strip :: "pystr \<Rightarrow> pystr" where
  "py_strip s = rev (dropWhile is_space (rev (dropWhile is_space s)))"

text \<open>\<^verbatim>\<open>s.split(sep)\<close> for a separator of one character: never an empty list.\<close>

fun split_on :: "pychar \<Rightarrow> pystr \<Rightarrow> pystr list" where
  "split_on sep [] = [[]]"
| "split_on sep (c # cs) =
     (if c = sep then [] # split_on sep cs
      else (c # hd (split_on sep cs)) # tl (split_on sep cs))"

text \<open>\<^verbatim>\<open>sep.join(parts)\<close>.\<close>

fun join :: "pystr \<Rightarrow> pystr list \<Rightarrow> pystr" where
  "join sep [] = []"
| "join sep [p] = p"
| "join sep (p # q # ps) = p @ sep @ join sep (q # ps)"

text \<open>\<^verbatim>\<open>s.replace(a, b)\<close> for single characters.\<close>

definition py_replace :: "pychar \<Rightarrow> pychar \<Rightarrow> pystr \<Rightarrow> pystr" where
  "py_replace a b s = map (\<lambda>c. if c = a then b else c) s"

section \<open>Re-indentation (fixes.py)\<close>

text \<open>
  \<^verbatim>\<open>get_starting_indentation\<close>: the loop over \<^verbatim>\<open>code.split('\n')\<close> returns at the
  first line whose \<^verbatim>\<open>strip()\<close> is not empty, with
  \<^verbatim>\<open>len(line) - len(line.lstrip())\<close>; it returns 0 when there is no such line.
\<close>

fun first_indentation :: "pystr list \<Rightarrow> int" where
  "first_indentation [] = 0"
| "first_indentation (line # rest) =
     (if py_strip line \<noteq> [] then int (length line) - int (length (py_lstrip line))
      else first_indentation rest)"

definition get_starting_indentation :: "pystr \<Rightarrow> int" where
  "get_starting_indentation code = first_indentation (split_on nl code)"

text \<open>
  \<^verbatim>\<open>add_indentation\<close>: \<^verbatim>\<open>indentation * ' '\<close> is the empty string for a negative
  number.
\<close>

definition indent_line :: "int \<Rightarrow> pystr \<Rightarrow> pystr" where
  "indent_line indentation line =
     (if py_strip line \<noteq> [] then replicate (nat indentation) space @ line else line)"

definition add_indentation :: "pystr \<Rightarrow> int \<Rightarrow> pystr" where
  "add_indentation code indentation =
     join [nl] (map (indent_line indentation) (split_on nl code)) @ [nl]"

text \<open>The number of leading spaces (U+0020) of a line.\<close>

definition leading_spaces :: "pystr \<Rightarrow> nat" where
  "leading_spaces line = length (takeWhile (\<lambda>c. c = space) line)"

text \<open>The number of leading whitespace characters of a line.\<close>

definition leading_whitespace :: "pystr \<Rightarrow> nat" where
  "leading_whitespace line = length (takeWhile is_space line)"

section \<open>Python lists\<close>

text \<open>
  \<^verbatim>\<open>xs[i]\<close>: a negative index counts from the end; an index outside
  \<open>-len(xs) \<le> i < len(xs)\<close> raises \<^verbatim>\<open>IndexError\<close>.
\<close>

datatype py_error =
    OSError | UnicodeDecodeError | UnicodeEncodeError | SyntaxError | TypeError | ValueError
  | OverflowError | RecursionError | MemoryError | IndexError | AssertionError | APIError

definition py_index :: "'a list \<Rightarrow> int \<Rightarrow> py_error + 'a" where
  "py_index xs i =
     (if 0 \<le> i \<and> i < int (length xs) then Inr (xs ! nat i)
      else if i < 0 \<and> - int (length xs) \<le> i then Inr (xs ! nat (int (length xs) + i))
      else Inl IndexError)"

text \<open>
  The bound of a slice \<^verbatim>\<open>xs[i:j]\<close>: a negative bound counts from the end, and every
  bound is clamped into \<open>0..len(xs)\<close>.
\<close>

definition slice_bound :: "nat \<Rightarrow> int \<Rightarrow> nat" where
  "slice_bound n i = (if i < 0 then nat (int n + i) else min n (nat i))"

definition py_slice :: "'a list \<Rightarrow> int \<Rightarrow> int \<Rightarrow> 'a list" where
  "py_slice xs i j =
     take (slice_bound (length xs) j - slice_bound (length xs) i)
          (drop (slice_bound (length xs) i) xs)"

text \<open>\<^verbatim>\<open>del xs[i:j]\<close>.\<close>

definition py_del_slice :: "'a list \<Rightarrow> int \<Rightarrow> int \<Rightarrow> 'a list" where
  "py_del_slice xs i j =
     take (slice_bound (length xs) i) xs
       @ drop (max (slice_bound (length xs) i) (slice_bound (length xs) j)) xs"

text \<open>\<^verbatim>\<open>xs.insert(i, x)\<close>: the position is clamped like a slice bound.\<close>

definition py_insert :: "'a list \<Rightarrow> int \<Rightarrow> 'a \<Rightarrow> 'a list" where
  "py_insert xs i x = take (slice_bound (length xs) i) xs @ x # drop (slice_bound (length xs) i) xs"

section \<open>Files, the log and the outside world\<close>

text \<open>
  A file holds text or bytes that do not decode as UTF-8. Files are opened in text mode
  with the default \<^verbatim>\<open>newline=None\<close>: reading turns \<^verbatim>\<open>\r\n\<close> and \<^verbatim>\<open>\r\<close> into
  \<^verbatim>\<open>\n\<close>; writing stores the text as it is (the line separator is \<^verbatim>\<open>\n\<close>).
  \<^verbatim>\<open>open\<close> raises \<^verbatim>\<open>ValueError\<close> for a path with a null character; a path with no
  file stands for every \<^verbatim>\<open>OSError\<close> of \<^verbatim>\<open>open\<close>.
\<close>

datatype file_data = Text pystr | Undecodable

fun universal_newlines :: "pystr \<Rightarrow> pystr" where
  "universal_newlines [] = []"
| "universal_newlines [c] = [if c = cr then nl else c]"
| "universal_newlines (c # d # cs) =
     (if c = cr \<and> d = nl then nl # universal_newlines cs
      else if c = cr then nl # universal_newlines (d # cs)
      else c # universal_newlines (d # cs))"

text \<open>\<^verbatim>\<open>file.readlines()\<close> and \<^verbatim>\<open>for line in file\<close> on the text read: every line keeps
  its \<^verbatim>\<open>\n\<close>; there is no empty last line.\<close>

fun readlines :: "pystr \<Rightarrow> pystr list" where
  "readlines [] = []"
| "readlines (c # cs) =
     (if c = nl then [nl] # readlines cs
      else (case readlines cs of [] \<Rightarrow> [[c]] | l # ls \<Rightarrow> (c # l) # ls))"

datatype Context = LINE | METHOD | CLASS | FILE | MODULE | PROJECT

text \<open>A log record: the level, the format string of the source and the values it
  interpolates.\<close>

datatype level = INFO | WARNING | ERROR

datatype log_arg = S pystr | I int | E py_error | C Context

type_synonym log_entry = "level \<times> string \<times> log_arg list"

record world =
  files :: "pystr \<rightharpoonup> file_data"
  requests :: "(pystr \<times> pystr) list"
  logs :: "log_entry list"

definition logging :: "level \<Rightarrow> string \<Rightarrow> log_arg list \<Rightarrow> world \<Rightarrow> world" where
  "logging lvl msg args w = w\<lparr>logs := logs w @ [(lvl, msg, args)]\<rparr>"

definition read_file :: "world \<Rightarrow> pystr \<Rightarrow> py_error + pystr" where
  "read_file w path =
     (if 0 \<in> set path then Inl ValueError
      else case files w path of
             None \<Rightarrow> Inl OSError
           | Some Undecodable \<Rightarrow> Inl UnicodeDecodeError
           | Some (Text s) \<Rightarrow> Inr (universal_newlines s))"

text \<open>
  \<^verbatim>\<open>open(path, 'w')\<close> and \<^verbatim>\<open>file.writelines(lines)\<close> on a path that has been read:
  the file is emptied, then the lines are encoded and written one after the other. A line
  with a surrogate code point (U+D800..U+DFFF) does not encode as UTF-8: there
  \<^verbatim>\<open>UnicodeEncodeError\<close> is raised, and the file keeps the lines written before it.
\<close>

definition encodable :: "pystr \<Rightarrow> bool" where
  "encodable s \<longleftrightarrow> list_all (\<lambda>c. \<not> (55296 \<le> c \<and> c \<le> 57343)) s"

definition writelines :: "pystr \<Rightarrow> pystr list \<Rightarrow> world \<Rightarrow> (py_error + unit) \<times> world" where
  "writelines path lines w =
     (if list_all encodable lines then Inr () else Inl UnicodeEncodeError,
      w\<lparr>files := (files w)(path \<mapsto> Text (concat (takeWhile encodable lines)))\<rparr>)"

text \<open>
  The syntax tree of \<^verbatim>\<open>ast.parse\<close>, as far as \<^verbatim>\<open>extract_method_from_line\<close> reads it:
  the class of a node, \<^verbatim>\<open>lineno\<close> and \<^verbatim>\<open>end_lineno\<close> (read of \<^verbatim>\<open>FunctionDef\<close> nodes
  only) and the child nodes in the order of \<^verbatim>\<open>ast.iter_child_nodes\<close>.
\<close>

datatype node_class = Module | ClassDef | FunctionDef | AsyncFunctionDef | OtherNode

datatype node = Node (node_class: node_class) (lineno: int) (end_lineno: int) (children: "node list")

text \<open>
  What the program calls and this repository does not define:
  \<^item> \<open>compile_source\<close>: \<^verbatim>\<open>compile(script, file_path, 'exec')\<close>, the exception it raises,
    if any;
  \<^item> \<open>ast_parse\<close>: \<^verbatim>\<open>ast.parse(source)\<close>;
  \<^item> \<open>messages_create\<close>: the request to the API with a system prompt and a user text,
    giving \<^verbatim>\<open>message.content[0].text\<close> or the exception raised on the way;
  \<^item> \<open>int_of\<close>: \<^verbatim>\<open>int(s)\<close> of a string, \<open>None\<close> for \<^verbatim>\<open>ValueError\<close>.
\<close>

record externals =
  compile_source :: "pystr \<Rightarrow> py_error option"
  ast_parse :: "pystr \<Rightarrow> py_error + node"
  messages_create :: "pystr \<Rightarrow> pystr \<Rightarrow> py_error + pystr"
  int_of :: "pystr \<Rightarrow> int option"

section \<open>The warning report (fixes.py, parse_pylint_warnings)\<close>

record warning =
  file_path :: pystr
  line_number :: int
  character :: pystr
  error_code :: pystr
  error_message :: pystr

text \<open>
  The body of the loop over the lines of the report. \<^verbatim>\<open>int(parts[1])\<close> is the only
  call of the tuple that can raise, and \<^verbatim>\<open>ValueError\<close> is what it raises.
\<close>

fun parse_lines :: "externals \<Rightarrow> pystr list \<Rightarrow> warning list \<Rightarrow> world \<Rightarrow> warning list \<times> world" where
  "parse_lines ext [] pylint_warnings w = (pylint_warnings, w)"
| "parse_lines ext (line # rest) pylint_warnings w =
     (let parts = split_on colon (py_strip line) in
      if length parts \<ge> 5 then
        (case int_of ext (parts ! 1) of
           Some n \<Rightarrow>
             parse_lines ext rest
               (pylint_warnings @
                  [\<lparr>file_path = py_strip (parts ! 0), line_number = n,
                    character = py_strip (parts ! 2), error_code = py_strip (parts ! 3),
                    error_message = py_strip (parts ! 4)\<rparr>]) w
         | None \<Rightarrow>
             parse_lines ext rest pylint_warnings
               (logging WARNING ''Skipping line due to parsing error: {line}'' [S line] w))
      else parse_lines ext rest pylint_warnings w)"

definition parse_pylint_warnings ::
  "externals \<Rightarrow> pystr \<Rightarrow> world \<Rightarrow> (py_error + warning list) \<times> world" where
  "parse_pylint_warnings ext path w =
     (case read_file w path of
        Inl e \<Rightarrow> (Inl e, w)
      | Inr text \<Rightarrow>
          (case parse_lines ext (readlines text) [] w of
             (pylint_warnings, w') \<Rightarrow> (Inr pylint_warnings, w')))"

section \<open>The suggester (anthropic_api.py)\<close>

text \<open>
  \<^verbatim>\<open>re.search(r"```python\s+(.*?)\s+```", text, re.DOTALL)\<close>, by the rules of a
  backtracking matcher: the leftmost start; there the first \<^verbatim>\<open>\s+\<close> takes as much
  whitespace as it can and gives back one character at a time; the group \<^verbatim>\<open>(.*?)\<close>
  takes as little as it can, any character included; the second \<^verbatim>\<open>\s+\<close> must end at the
  closing fence, so it takes the whole run of whitespace before it.
\<close>

definition fence :: pystr where
  "fence = [backtick, backtick, backtick]"

definition python_fence :: pystr where
  "python_fence = fence @ ustr ''python''"

text \<open>\<^verbatim>\<open>\s+```\<close> matches at the start of \<open>s\<close>.\<close>

definition closes :: "pystr \<Rightarrow> bool" where
  "closes s \<longleftrightarrow> takeWhile is_space s \<noteq> [] \<and> take 3 (dropWhile is_space s) = fence"

text \<open>\<^verbatim>\<open>(.*?)\s+```\<close> at the start of \<open>s\<close>: the group of the first success.\<close>

fun lazy_group :: "pystr \<Rightarrow> pystr option" where
  "lazy_group [] = None"
| "lazy_group (c # cs) =
     (if closes (c # cs) then Some [] else map_option ((#) c) (lazy_group cs))"

text \<open>\<^verbatim>\<open>\s+(.*?)\s+```\<close> at the start of \<open>s\<close>, the first \<^verbatim>\<open>\s+\<close> trying \<open>k\<close>
  characters, then \<open>k - 1\<close>, down to one.\<close>

fun greedy_space :: "nat \<Rightarrow> pystr \<Rightarrow> pystr option" where
  "greedy_space 0 s = None"
| "greedy_space (Suc k) s =
     (case lazy_group (drop (Suc k) s) of Some g \<Rightarrow> Some g | None \<Rightarrow> greedy_space k s)"

definition match_here :: "pystr \<Rightarrow> pystr option" where
  "match_here s =
     (if take 9 s = python_fence
      then greedy_space (length (takeWhile is_space (drop 9 s))) (drop 9 s)
      else None)"

fun re_search :: "pystr \<Rightarrow> pystr option" where
  "re_search [] = None"
| "re_search (c # cs) =
     (case match_here (c # cs) of Some g \<Rightarrow> Some g | None \<Rightarrow> re_search cs)"

text \<open>The end of \<^verbatim>\<open>anthropic_request\<close>, from the response text on.\<close>

definition extract_code :: "pystr \<Rightarrow> world \<Rightarrow> pystr \<times> world" where
  "extract_code text w =
     (let w1 = logging INFO ''Extracting code from API response.'' [] w in
      case re_search text of
        Some extracted_code \<Rightarrow> (extracted_code, logging INFO ''Code extracted successfully.'' [] w1)
      | None \<Rightarrow> (text, logging WARNING ''No code block found in the response.'' [] w1))"

definition anthropic_request ::
  "externals \<Rightarrow> pystr \<Rightarrow> pystr \<Rightarrow> pystr \<Rightarrow> world \<Rightarrow> (py_error + pystr) \<times> world" where
  "anthropic_request ext pylint_warning code prompt w =
     (let w1 = logging INFO ''Creating Anthropic client.'' [] w;
          w2 = logging INFO ''Sending request to Anthropic API.'' [] w1;
          user_text = pylint_warning @ [nl] @ code;
          w3 = w2\<lparr>requests := requests w2 @ [(prompt, user_text)]\<rparr>
      in case messages_create ext prompt user_text of
           Inl e \<Rightarrow> (Inl e, w3)
         | Inr text \<Rightarrow>
             (case extract_code text (logging INFO ''Received response from Anthropic API.'' [] w3) of
                (new_code, w4) \<Rightarrow> (Inr new_code, w4)))"

section \<open>The fix catalog (pylint_fix.py, fixes.py)\<close>

record PylintFix =
  fix_name :: pystr
  fix_code :: pystr
  fix_prompt :: pystr
  fix_context :: Context

definition DEFAULT_PROMPT :: pystr where
  "DEFAULT_PROMPT = ustr
     (''Your task is to analyze the provided pylint warning and Python code snippet '' @
      ''and provide a corrected version of the code that resolves the warning. '' @
      ''The corrected code should be functional in a bigger context, efficient, and adhere to best practices in Python programming. '' @
      ''Keep in mind that it is a snippet from a bigger script, therefore keep things such as indentation level and ending commas '' @
      ''such that it still works in the broader context and don't add imports, packages, new classes or new functions. '' @
      ''If a function or package is getting called, assume that it already exists and is imported. '' @
      ''You can also assume that the code is syntactically correct and the only issue is the pylint warning. '')"

definition pylint_fix :: "string \<Rightarrow> string \<Rightarrow> Context \<Rightarrow> PylintFix" where
  "pylint_fix name code context =
     \<lparr>fix_name = ustr name, fix_code = ustr code, fix_prompt = DEFAULT_PROMPT, fix_context = context\<rparr>"

definition PYLINT_FIXES :: "PylintFix list" where
  "PYLINT_FIXES =
     [pylint_fix ''no-else-return'' ''R1705'' METHOD,
      pylint_fix ''unspecified-encoding'' ''W1514'' METHOD,
      pylint_fix ''use-implicit-booleaness-not-comparison'' ''C1803'' LINE,
      pylint_fix ''consider-using-with'' ''R1732'' METHOD,
      pylint_fix ''unnecessary-comprehension'' ''R1721'' LINE,
      pylint_fix ''consider-using-in'' ''R1714'' LINE,
      pylint_fix ''chained-comparison'' ''R1716'' LINE,
      pylint_fix ''useless-return'' ''R1711'' METHOD,
      pylint_fix ''no-else-break'' ''R1723'' METHOD,
      pylint_fix ''consider-using-ternary'' ''R1706'' LINE]"

section \<open>Validation, span location and patching (fixes.py)\<close>

text \<open>
  \<^verbatim>\<open>check_python_file\<close>. The body of its \<^verbatim>\<open>try\<close> reads the file and compiles the text;
  the two handlers differ in the message they log and both return \<^verbatim>\<open>False\<close>. Whatever
  \<^verbatim>\<open>open\<close>, \<^verbatim>\<open>read\<close> and \<^verbatim>\<open>compile\<close> raise is an \<^verbatim>\<open>Exception\<close>, so the second
  handler takes all that the first leaves.
\<close>

definition check_python_file_try :: "externals \<Rightarrow> pystr \<Rightarrow> world \<Rightarrow> py_error + bool" where
  "check_python_file_try ext path w =
     (case read_file w path of
        Inl e \<Rightarrow> Inl e
      | Inr script \<Rightarrow>
          (case compile_source ext script of Some e \<Rightarrow> Inl e | None \<Rightarrow> Inr True))"

definition check_python_file :: "externals \<Rightarrow> pystr \<Rightarrow> world \<Rightarrow> bool \<times> world" where
  "check_python_file ext path w =
     (case check_python_file_try ext path w of
        Inr b \<Rightarrow> (b, logging INFO ''Python script {file_path} is syntactically correct.'' [S path] w)
      | Inl e \<Rightarrow>
          if e = SyntaxError \<or> e = TypeError
          then (False, logging ERROR ''Syntax error in {file_path}: {e}'' [S path, E e] w)
          else (False, logging ERROR ''Unexpected error in {file_path}: {e}'' [S path, E e] w))"

text \<open>The \<^verbatim>\<open>Context.LINE\<close> case of \<^verbatim>\<open>extract_code_from_context\<close>.\<close>

definition extract_line :: "pystr \<Rightarrow> int \<Rightarrow> world \<Rightarrow> py_error + pystr \<times> int \<times> int" where
  "extract_line path lno w =
     (case read_file w path of
        Inl e \<Rightarrow> Inl e
      | Inr text \<Rightarrow>
          (case py_index (readlines text) (lno - 1) of
             Inl e \<Rightarrow> Inl e
           | Inr line \<Rightarrow> Inr (line, lno, lno)))"

text \<open>\<^verbatim>\<open>ast.walk\<close>: a queue that starts with the root; the node at its front is yielded
  and its children join the back.\<close>

function walk_queue :: "node list \<Rightarrow> node list" where
  "walk_queue [] = []"
| "walk_queue (n # todo) = n # walk_queue (todo @ children n)"
  by pat_completeness auto
termination
proof (relation "measure (\<lambda>todo. sum_list (map size todo))")
  show "wf (measure (\<lambda>todo. sum_list (map size todo)))"
    by simp
next
  fix n :: node and todo :: "node list"
  have "sum_list (map size (children n)) < size n"
    by (cases n) (simp add: size_list_conv_sum_list)
  then show "(todo @ children n, n # todo) \<in> measure (\<lambda>todo. sum_list (map size todo))"
    by simp
qed

definition walk :: "node \<Rightarrow> node list" where
  "walk tree = walk_queue [tree]"

text \<open>The test of the loop of \<^verbatim>\<open>extract_method_from_line\<close>.\<close>

definition encloses :: "int \<Rightarrow> node \<Rightarrow> bool" where
  "encloses lno n \<longleftrightarrow> node_class n = FunctionDef \<and> lineno n \<le> lno \<and> lno \<le> end_lineno n"

text \<open>
  \<^verbatim>\<open>extract_method_from_line\<close>. Its last line calls
  \<^verbatim>\<open>extract_code_from_context(file_path, line_number, Context.LINE)\<close>, which is
  \<open>extract_line\<close>.
\<close>

definition extract_method_from_line ::
  "externals \<Rightarrow> pystr \<Rightarrow> int \<Rightarrow> world \<Rightarrow> (py_error + pystr \<times> int \<times> int) \<times> world" where
  "extract_method_from_line ext path lno w =
     (case read_file w path of
        Inl e \<Rightarrow> (Inl e, w)
      | Inr source \<Rightarrow>
          (case ast_parse ext source of
             Inl e \<Rightarrow> (Inl e, w)
           | Inr tree \<Rightarrow>
               (case find (encloses lno) (walk tree) of
                  Some n \<Rightarrow>
                    (Inr (join [nl] (py_slice (split_on nl source) (lineno n - 1) (end_lineno n)),
                          lineno n, end_lineno n), w)
                | None \<Rightarrow>
                    (let w1 = logging INFO
                           ''Method not found for line number {line_number} in {file_path}. Trying to extract line...''
                           [I lno, S path] w
                     in (extract_line path lno w1, w1)))))"

definition extract_code_from_context ::
  "externals \<Rightarrow> pystr \<Rightarrow> int \<Rightarrow> Context \<Rightarrow> world \<Rightarrow> (py_error + pystr \<times> int \<times> int) \<times> world" where
  "extract_code_from_context ext path lno context w =
     (case context of
        LINE \<Rightarrow> (extract_line path lno w, w)
      | METHOD \<Rightarrow> extract_method_from_line ext path lno w
      | _ \<Rightarrow>
          (Inr ([], 0, 0),
           logging WARNING ''Unsupported context {context} for line {line_number} in {file_path}''
             [C context, I lno, S path] w))"

text \<open>
  \<^verbatim>\<open>replace_code_in_file\<close>; both bounds are numbers at every call, so the test for
  \<^verbatim>\<open>None\<close> holds.
\<close>

definition replace_lines :: "pystr list \<Rightarrow> pystr \<Rightarrow> int \<Rightarrow> int \<Rightarrow> pystr list" where
  "replace_lines lines new_code code_start code_end =
     py_insert (py_del_slice lines (code_start - 1) code_end) (code_start - 1) new_code"

definition replace_code_in_file ::
  "pystr \<Rightarrow> pystr \<Rightarrow> int \<Rightarrow> int \<Rightarrow> world \<Rightarrow> (py_error + unit) \<times> world" where
  "replace_code_in_file path new_code code_start code_end w =
     (case read_file w path of
        Inl e \<Rightarrow> (Inl e, w)
      | Inr text \<Rightarrow>
          writelines path (replace_lines (readlines text) new_code code_start code_end) w)"

text \<open>\<^verbatim>\<open>apply_fix_to_warning\<close>; a failed \<^verbatim>\<open>assert\<close> raises \<^verbatim>\<open>AssertionError\<close>.\<close>

definition apply_fix_to_warning ::
  "externals \<Rightarrow> PylintFix \<Rightarrow> warning \<Rightarrow> world \<Rightarrow> (py_error + unit) \<times> world" where
  "apply_fix_to_warning ext fix warning w =
     (let path = ustr ''./'' @ py_replace backslash slash (file_path warning) in
      case check_python_file ext path w of
        (False, w1) \<Rightarrow> (Inr (), w1)
      | (True, w1) \<Rightarrow>
          (case extract_code_from_context ext path (line_number warning) (fix_context fix) w1 of
             (Inl e, w2) \<Rightarrow> (Inl e, w2)
           | (Inr (code, line_start, line_end), w2) \<Rightarrow>
               (case anthropic_request ext (error_message warning) code (fix_prompt fix) w2 of
                  (Inl e, w3) \<Rightarrow> (Inl e, w3)
                | (Inr new_code, w3) \<Rightarrow>
                    (let indented_new_code = add_indentation new_code (get_starting_indentation code) in
                     case replace_code_in_file path indented_new_code line_start line_end w3 of
                       (Inl e, w4) \<Rightarrow> (Inl e, w4)
                     | (Inr u, w4) \<Rightarrow>
                         (case check_python_file ext path w4 of
                            (True, w5) \<Rightarrow> (Inr (), w5)
                          | (False, w5) \<Rightarrow> (Inl AssertionError, w5))))))"

text \<open>
  The loop of \<^verbatim>\<open>auto_fix\<close> over the warnings of one repository:
  \<^verbatim>\<open>for warning in reversed(warnings)\<close>, and in it the loop over the catalog that stops
  at the first fix with the warning's code. An exception ends both.
\<close>

fun fix_each :: "externals \<Rightarrow> PylintFix list \<Rightarrow> warning list \<Rightarrow> world \<Rightarrow> (py_error + unit) \<times> world" where
  "fix_each ext fixes [] w = (Inr (), w)"
| "fix_each ext fixes (warning # rest) w =
     (case find (\<lambda>fix. fix_code fix = error_code warning) fixes of
        None \<Rightarrow> fix_each ext fixes rest w
      | Some fix \<Rightarrow>
          (case apply_fix_to_warning ext fix warning w of
             (Inl e, w') \<Rightarrow> (Inl e, w')
           | (Inr u, w') \<Rightarrow> fix_each ext fixes rest w'))"

definition fix_warnings :: "externals \<Rightarrow> warning list \<Rightarrow> world \<Rightarrow> (py_error + unit) \<times> world" where
  "fix_warnings ext warnings w = fix_each ext PYLINT_FIXES (rev warnings) w"

section \<open>Example inputs\<close>

text \<open>A compiler and a parser that accept the listed texts and raise \<^verbatim>\<open>SyntaxError\<close>
  on every other text; a suggester that always answers with the same text; an
  \<^verbatim>\<open>int\<close> that reads the listed texts and raises \<^verbatim>\<open>ValueError\<close> on every other.\<close>

definition accepting :: "pystr list \<Rightarrow> pystr \<Rightarrow> py_error option" where
  "accepting good script = (if script \<in> set good then None else Some SyntaxError)"

definition parsing :: "(pystr \<times> node) list \<Rightarrow> pystr \<Rightarrow> py_error + node" where
  "parsing trees source = (case map_of trees source of Some t \<Rightarrow> Inr t | None \<Rightarrow> Inl SyntaxError)"

definition reading :: "(pystr \<times> int) list \<Rightarrow> pystr \<Rightarrow> int option" where
  "reading numbers s = map_of numbers s"

definition example_ext :: "pystr list \<Rightarrow> (pystr \<times> node) list \<Rightarrow> pystr \<Rightarrow> externals" where
  "example_ext good trees response =
     \<lparr>compile_source = accepting good, ast_parse = parsing trees,
      messages_create = (\<lambda>system user_text. Inr response), int_of = reading [(ustr ''1'', 1), (ustr ''2'', 2), (ustr ''3'', 3)]\<rparr>"

definition one_file :: "pystr \<Rightarrow> pystr \<Rightarrow> world" where
  "one_file path text = \<lparr>files = [path \<mapsto> Text text], requests = [], logs = []\<rparr>"

definition a_warning :: "int \<Rightarrow> string \<Rightarrow> warning" where
  "a_warning lno code =
     \<lparr>file_path = ustr ''a.py'', line_number = lno, character = ustr ''0'',
      error_code = ustr code, error_message = ustr ''m''\<rparr>"


text \<open>
  A function defined in a function, and the tree \<^verbatim>\<open>ast.parse\<close> gives for it: the
  module; \<^verbatim>\<open>def f\<close> on lines 1 to 4 with its arguments, \<^verbatim>\<open>def g\<close> and
  \<^verbatim>\<open>return g\<close>; \<^verbatim>\<open>def g\<close> on lines 2 to 3 with its arguments and
  \<^verbatim>\<open>return 1\<close>. Nodes that have no \<^verbatim>\<open>lineno\<close> are given 0.
\<close>

definition nested_source :: pystr where
  "nested_source = ustr ''def f():\<newline>    def g():\<newline>        return 1\<newline>    return g\<newline>''"

definition inner_def :: node where
  "inner_def = Node FunctionDef 2 3 [Node OtherNode 0 0 [], Node OtherNode 3 3 [Node OtherNode 3 3 []]]"

definition outer_def :: node where
  "outer_def = Node FunctionDef 1 4
     [Node OtherNode 0 0 [], inner_def, Node OtherNode 4 4 [Node OtherNode 4 4 [Node OtherNode 0 0 []]]]"

definition nested_tree :: node where
  "nested_tree = Node Module 0 0 [outer_def]"
section \<open>Depth in the syntax tree\<close>

text \<open>The children of the nodes of a list, in order, and the nodes of a tree at depth
  \<open>k\<close>, from left to right: the root is at depth 0, the root's children at depth 1.\<close>

definition child_nodes :: "node list \<Rightarrow> node list" where
  "child_nodes xs = concat (map children xs)"

definition level :: "nat \<Rightarrow> node \<Rightarrow> node list" where
  "level k tree = (child_nodes ^^ k) [tree]"

section \<open>Facts about text\<close>

lemma split_on_not_Nil: "split_on sep s \<noteq> []"
  by (cases s) simp_all

lemma split_on_no_sep: "l \<in> set (split_on sep s) \<Longrightarrow> sep \<notin> set l"
proof (induction s arbitrary: l)
  case Nil
  then show ?case by simp
next
  case (Cons c cs)
  show ?case
  proof (cases "c = sep")
    case True
    with Cons show ?thesis by auto
  next
    case False
    obtain p ps where r: "split_on sep cs = p # ps"
      using split_on_not_Nil [of sep cs] by (cases "split_on sep cs") auto
    from Cons.prems False r have "l = c # p \<or> l \<in> set ps" by simp
    then show ?thesis
    proof
      assume "l = c # p"
      moreover have "sep \<notin> set p" using Cons.IH [of p] r by simp
      ultimately show ?thesis using False by auto
    next
      assume "l \<in> set ps"
      then show ?thesis using Cons.IH [of l] r by simp
    qed
  qed
qed

lemma split_on_append_sep:
  "sep \<notin> set l \<Longrightarrow> split_on sep (l @ sep # s) = l # split_on sep s"
  by (induction l) auto

lemma split_on_plain: "sep \<notin> set l \<Longrightarrow> split_on sep l = [l]"
  by (induction l) auto

lemma split_on_join:
  "ls \<noteq> [] \<Longrightarrow> (\<And>l. l \<in> set ls \<Longrightarrow> sep \<notin> set l) \<Longrightarrow> split_on sep (join [sep] ls) = ls"
proof (induction ls rule: induct_list012)
  case 1
  then show ?case by simp
next
  case (2 p)
  then show ?case by (simp add: split_on_plain)
next
  case (3 p q ps)
  have "split_on sep (join [sep] (q # ps)) = q # ps"
    using 3 by simp
  moreover have "sep \<notin> set p"
    using 3(4) [of p] by simp
  ultimately show ?case
    by (simp add: split_on_append_sep)
qed

lemma join_snoc_empty: "ls \<noteq> [] \<Longrightarrow> join [sep] (ls @ [[]]) = join [sep] ls @ [sep]"
  by (induction ls rule: induct_list012) auto

lemma py_strip_Nil_iff: "py_strip s = [] \<longleftrightarrow> (\<forall>c \<in> set s. is_space c)"
proof -
  let ?d = "dropWhile is_space s"
  have "py_strip s = [] \<longleftrightarrow> (\<forall>c \<in> set ?d. is_space c)"
    unfolding py_strip_def by (simp add: dropWhile_eq_Nil_conv)
  also have "\<dots> \<longleftrightarrow> ?d = []"
  proof
    assume a: "\<forall>c \<in> set ?d. is_space c"
    show "?d = []"
    proof (rule ccontr)
      assume ne: "?d \<noteq> []"
      then have "\<not> is_space (hd ?d)" by (rule hd_dropWhile)
      moreover have "hd ?d \<in> set ?d" using ne by (rule hd_in_set)
      ultimately show False using a by blast
    qed
  next
    assume e: "?d = []"
    show "\<forall>c \<in> set ?d. is_space c" unfolding e by simp
  qed
  also have "\<dots> \<longleftrightarrow> (\<forall>c \<in> set s. is_space c)"
    by (simp add: dropWhile_eq_Nil_conv)
  finally show ?thesis .
qed

lemma is_space_space: "is_space space"
  by (simp add: is_space_def)

lemma indent_line_blank_iff: "py_strip (indent_line w l) = [] \<longleftrightarrow> py_strip l = []"
  by (auto simp: indent_line_def py_strip_Nil_iff is_space_space)

lemma indent_line_no_nl: "nl \<notin> set l \<Longrightarrow> nl \<notin> set (indent_line w l)"
  by (simp add: indent_line_def)

lemma leading_spaces_indent_line:
  "py_strip l \<noteq> [] \<Longrightarrow> nat w \<le> leading_spaces (indent_line w l)"
proof -
  assume "py_strip l \<noteq> []"
  then have "indent_line w l = replicate (nat w) space @ l"
    by (simp add: indent_line_def)
  moreover have "takeWhile (\<lambda>c. c = space) (replicate n space @ l)
                 = replicate n space @ takeWhile (\<lambda>c. c = space) l" for n
    by (induction n) simp_all
  ultimately show ?thesis
    by (simp add: leading_spaces_def)
qed

text \<open>The lines of the re-indented text: the re-indented lines of the replacement, then an
  empty last line for the newline appended.\<close>

lemma lines_add_indentation:
  "split_on nl (add_indentation code w) = map (indent_line w) (split_on nl code) @ [[]]"
proof -
  let ?ls = "map (indent_line w) (split_on nl code)"
  have ne: "?ls \<noteq> []"
    by (simp add: split_on_not_Nil)
  have no: "\<And>l. l \<in> set (?ls @ [[]]) \<Longrightarrow> nl \<notin> set l"
    using split_on_no_sep [of _ nl code] indent_line_no_nl by auto
  have "add_indentation code w = join [nl] (?ls @ [[]])"
    using ne by (simp add: add_indentation_def join_snoc_empty)
  then show ?thesis
    using split_on_join [of "?ls @ [[]]" nl] no by simp
qed

lemma first_indentation_find:
  "first_indentation ls =
     (case find (\<lambda>l. py_strip l \<noteq> []) ls of None \<Rightarrow> 0 | Some l \<Rightarrow> int (leading_whitespace l))"
proof (induction ls)
  case Nil
  then show ?case by simp
next
  case (Cons l ls)
  have "length (takeWhile is_space l) + length (dropWhile is_space l) = length l"
    by (metis length_append takeWhile_dropWhile_id)
  then have "int (length l) - int (length (py_lstrip l)) = int (leading_whitespace l)"
    by (simp add: py_lstrip_def leading_whitespace_def)
  with Cons show ?case by simp
qed

lemma replicate_numeral_unfold: "replicate (numeral k) x = x # replicate (pred_numeral k) x"
  by (simp add: numeral_eq_Suc)

lemmas text_eval = replicate_numeral_unfold ustr_def is_space_def py_strip_def py_lstrip_def
  indent_line_def add_indentation_def get_starting_indentation_def leading_spaces_def
  leading_whitespace_def

section \<open>Facts about the world\<close>

lemma files_logging [simp]: "files (logging lvl msg args w) = files w"
  by (simp add: logging_def)

lemma requests_logging [simp]: "requests (logging lvl msg args w) = requests w"
  by (simp add: logging_def)

lemma logs_logging [simp]: "logs (logging lvl msg args w) = logs w @ [(lvl, msg, args)]"
  by (simp add: logging_def)

lemma read_file_cong: "files w' = files w \<Longrightarrow> read_file w' path = read_file w path"
  by (simp add: read_file_def)

lemma read_file_logging [simp]: "read_file (logging lvl msg args w) path = read_file w path"
  by (simp add: read_file_def)

lemma check_python_file_try_cong:
  "files w' = files w \<Longrightarrow> check_python_file_try ext path w' = check_python_file_try ext path w"
  unfolding check_python_file_try_def read_file_def by simp

lemma check_python_file_fst:
  "fst (check_python_file ext path w) \<longleftrightarrow>
     (\<exists>script. read_file w path = Inr script \<and> compile_source ext script = None)"
  by (auto simp: check_python_file_def check_python_file_try_def split: sum.splits option.splits)

lemma check_python_file_fst_cong:
  "files w' = files w \<Longrightarrow> fst (check_python_file ext path w') = fst (check_python_file ext path w)"
  unfolding check_python_file_fst read_file_def by simp

lemma check_python_file_files [simp]: "files (snd (check_python_file ext path w)) = files w"
  by (simp add: check_python_file_def split: sum.splits)

lemma check_python_file_requests [simp]:
  "requests (snd (check_python_file ext path w)) = requests w"
  by (simp add: check_python_file_def split: sum.splits)

lemma extract_method_from_line_files [simp]:
  "files (snd (extract_method_from_line ext path lno w)) = files w"
  by (simp add: extract_method_from_line_def Let_def split: sum.splits option.splits)

lemma extract_method_from_line_requests [simp]:
  "requests (snd (extract_method_from_line ext path lno w)) = requests w"
  by (simp add: extract_method_from_line_def Let_def split: sum.splits option.splits)

lemma extract_code_from_context_files [simp]:
  "files (snd (extract_code_from_context ext path lno context w)) = files w"
  by (simp add: extract_code_from_context_def split: Context.splits)

lemma extract_code_from_context_requests [simp]:
  "requests (snd (extract_code_from_context ext path lno context w)) = requests w"
  by (simp add: extract_code_from_context_def split: Context.splits)

lemma py_index_beyond: "int (length xs) \<le> i \<Longrightarrow> py_index xs i = Inl IndexError"
  by (simp add: py_index_def)

lemma extract_line_beyond:
  "read_file w path = Inr text \<Longrightarrow> int (length (readlines text)) < lno \<Longrightarrow>
   extract_line path lno w = Inl IndexError"
  by (simp add: extract_line_def py_index_beyond)

section \<open>Facts about one patch\<close>

lemma extract_line_cong:
  "files w' = files w \<Longrightarrow> extract_line path lno w' = extract_line path lno w"
  unfolding extract_line_def read_file_def by simp

lemma extract_line_logging [simp]:
  "extract_line path lno (logging lvl msg args w) = extract_line path lno w"
  by (simp add: extract_line_def)

lemma extract_method_from_line_fst_cong:
  assumes "files w' = files w"
  shows "fst (extract_method_from_line ext path lno w') = fst (extract_method_from_line ext path lno w)"
proof -
  have r: "read_file w' path = read_file w path"
    using assms by (rule read_file_cong)
  have l: "extract_line path lno w' = extract_line path lno w"
    using assms by (rule extract_line_cong)
  show ?thesis
    unfolding extract_method_from_line_def r
    by (simp add: l Let_def split: sum.splits option.splits)
qed

lemma extract_code_from_context_fst_cong:
  assumes "files w' = files w"
  shows "fst (extract_code_from_context ext path lno context w')
       = fst (extract_code_from_context ext path lno context w)"
  using extract_method_from_line_fst_cong [OF assms] extract_line_cong [OF assms]
  by (simp add: extract_code_from_context_def split: Context.splits)

lemma extract_code_beyond:
  assumes "read_file w path = Inr text" and "int (length (readlines text)) < lno"
    and "context = LINE \<or>
         context = METHOD \<and>
           (\<exists>tree. ast_parse ext text = Inr tree \<and> find (encloses lno) (walk tree) = None)"
  shows "fst (extract_code_from_context ext path lno context w) = Inl IndexError"
proof -
  have l: "extract_line path lno w1 = Inl IndexError" if "files w1 = files w" for w1
    using extract_line_beyond [OF assms(1,2)] extract_line_cong [OF that] by simp
  from assms(3) show ?thesis
  proof
    assume "context = LINE"
    then show ?thesis by (simp add: extract_code_from_context_def l)
  next
    assume "context = METHOD \<and>
           (\<exists>tree. ast_parse ext text = Inr tree \<and> find (encloses lno) (walk tree) = None)"
    then show ?thesis
      using assms(1) by (auto simp: extract_code_from_context_def extract_method_from_line_def l)
  qed
qed

lemma extract_code_files [simp]: "files (snd (extract_code text w)) = files w"
  by (simp add: extract_code_def Let_def split: option.splits)

lemma extract_code_requests [simp]: "requests (snd (extract_code text w)) = requests w"
  by (simp add: extract_code_def Let_def split: option.splits)

lemma extract_code_fst:
  "fst (extract_code text w) = (case re_search text of Some g \<Rightarrow> g | None \<Rightarrow> text)"
  by (simp add: extract_code_def Let_def split: option.splits)

lemma anthropic_request_files [simp]:
  "files (snd (anthropic_request ext pylint_warning code prompt w)) = files w"
  by (simp add: anthropic_request_def Let_def split_beta split: sum.splits)

lemma anthropic_request_requests [simp]:
  "requests (snd (anthropic_request ext pylint_warning code prompt w))
     = requests w @ [(prompt, pylint_warning @ [nl] @ code)]"
  by (simp add: anthropic_request_def Let_def split_beta split: sum.splits)

lemma anthropic_request_fst:
  "fst (anthropic_request ext pylint_warning code prompt w)
     = (case messages_create ext prompt (pylint_warning @ [nl] @ code) of
          Inl e \<Rightarrow> Inl e
        | Inr text \<Rightarrow> Inr (case re_search text of Some g \<Rightarrow> g | None \<Rightarrow> text))"
  by (simp add: anthropic_request_def Let_def split_beta extract_code_fst split: sum.splits)

lemma read_file_path: "read_file w path = Inr text \<Longrightarrow> 0 \<notin> set path"
  by (auto simp: read_file_def split: if_splits)

lemma writelines_encodable:
  "list_all encodable lines \<Longrightarrow>
   writelines path lines w = (Inr (), w\<lparr>files := (files w)(path \<mapsto> Text (concat lines))\<rparr>)"
proof -
  assume "list_all encodable lines"
  then have "\<forall>x \<in> set lines. encodable x"
    by (simp add: list_all_iff)
  then have t: "takeWhile encodable lines = lines"
    by (rule takeWhile_eq_all_conv [THEN iffD2])
  show ?thesis
    unfolding writelines_def t using \<open>list_all encodable lines\<close> by simp
qed

lemma files_writelines [simp]:
  "files (snd (writelines path lines w)) = (files w)(path \<mapsto> Text (concat (takeWhile encodable lines)))"
  by (simp add: writelines_def)

lemma requests_writelines [simp]: "requests (snd (writelines path lines w)) = requests w"
  by (simp add: writelines_def)

lemma encodable_concat: "encodable (concat lines) \<longleftrightarrow> list_all encodable lines"
  by (induction lines) (simp_all add: encodable_def)

lemma check_python_file_cases:
  obtains w1 where "check_python_file ext path w = (fst (check_python_file ext path w), w1)"
    and "files w1 = files w" and "requests w1 = requests w"
proof -
  have "check_python_file ext path w = (fst (check_python_file ext path w), snd (check_python_file ext path w))"
    by simp
  moreover have "files (snd (check_python_file ext path w)) = files w"
    and "requests (snd (check_python_file ext path w)) = requests w"
    by simp_all
  ultimately show ?thesis using that by blast
qed

lemma apply_fix_to_warning_extraction_raises:
  assumes "fst (check_python_file ext (ustr ''./'' @ py_replace backslash slash (file_path warning)) w)"
    and "fst (extract_code_from_context ext
               (ustr ''./'' @ py_replace backslash slash (file_path warning))
               (line_number warning) (fix_context fix) w) = Inl e"
  shows "fst (apply_fix_to_warning ext fix warning w) = Inl e \<and>
         files (snd (apply_fix_to_warning ext fix warning w)) = files w \<and>
         requests (snd (apply_fix_to_warning ext fix warning w)) = requests w"
proof -
  let ?path = "ustr ''./'' @ py_replace backslash slash (file_path warning)"
  let ?x = "\<lambda>w. extract_code_from_context ext ?path (line_number warning) (fix_context fix) w"
  obtain w1 where c: "check_python_file ext ?path w = (True, w1)"
    and f1: "files w1 = files w" and r1: "requests w1 = requests w"
    using check_python_file_cases [of ext ?path w] assms(1) by metis
  have "fst (?x w1) = Inl e"
    using extract_code_from_context_fst_cong [OF f1] assms(2) by simp
  then obtain w2 where x: "?x w1 = (Inl e, w2)" and w2: "w2 = snd (?x w1)"
    by (metis prod.collapse)
  have "files w2 = files w" and "requests w2 = requests w"
    using f1 r1 w2 by simp_all
  moreover have "apply_fix_to_warning ext fix warning w = (Inl e, w2)"
    unfolding apply_fix_to_warning_def Let_def c using x by simp
  ultimately show ?thesis by simp
qed

lemma apply_fix_to_warning_patch:
  assumes "fst (check_python_file ext (ustr ''./'' @ py_replace backslash slash (file_path warning)) w)"
    and "fst (extract_code_from_context ext
               (ustr ''./'' @ py_replace backslash slash (file_path warning))
               (line_number warning) (fix_context fix) w) = Inr (code, line_start, line_end)"
    and "messages_create ext (fix_prompt fix) (error_message warning @ [nl] @ code) = Inr response"
    and "read_file w (ustr ''./'' @ py_replace backslash slash (file_path warning)) = Inr text"
    and "patched = concat (replace_lines (readlines text)
           (add_indentation (case re_search response of Some g \<Rightarrow> g | None \<Rightarrow> response)
              (get_starting_indentation code)) line_start line_end)"
    and "encodable patched"
  shows "fst (apply_fix_to_warning ext fix warning w) =
           (if compile_source ext (universal_newlines patched) = None then Inr ()
            else Inl AssertionError) \<and>
         files (snd (apply_fix_to_warning ext fix warning w)) =
           (files w)(ustr ''./'' @ py_replace backslash slash (file_path warning) \<mapsto> Text patched) \<and>
         requests (snd (apply_fix_to_warning ext fix warning w)) =
           requests w @ [(fix_prompt fix, error_message warning @ [nl] @ code)]"
proof -
  let ?path = "ustr ''./'' @ py_replace backslash slash (file_path warning)"
  let ?x = "\<lambda>w. extract_code_from_context ext ?path (line_number warning) (fix_context fix) w"
  let ?a = "\<lambda>w. anthropic_request ext (error_message warning) code (fix_prompt fix) w"
  let ?new = "case re_search response of Some g \<Rightarrow> g | None \<Rightarrow> response"
  let ?lines = "replace_lines (readlines text)
      (add_indentation ?new (get_starting_indentation code)) line_start line_end"
  obtain w1 where c: "check_python_file ext ?path w = (True, w1)"
    and f1: "files w1 = files w" and r1: "requests w1 = requests w"
    using check_python_file_cases [of ext ?path w] assms(1) by metis
  have "fst (?x w1) = Inr (code, line_start, line_end)"
    using extract_code_from_context_fst_cong [OF f1] assms(2) by simp
  then obtain w2 where x: "?x w1 = (Inr (code, line_start, line_end), w2)" and w2: "w2 = snd (?x w1)"
    by (metis prod.collapse)
  have f2: "files w2 = files w" and r2: "requests w2 = requests w"
    using f1 r1 w2 by simp_all
  have "fst (?a w2) = Inr ?new"
    using assms(3) by (simp add: anthropic_request_fst)
  then obtain w3 where a: "?a w2 = (Inr ?new, w3)" and w3: "w3 = snd (?a w2)"
    by (metis prod.collapse)
  have f3: "files w3 = files w"
    and r3: "requests w3 = requests w @ [(fix_prompt fix, error_message warning @ [nl] @ code)]"
    using f2 r2 w3 by simp_all
  have rd: "read_file w3 ?path = Inr text"
    using read_file_cong [OF f3] assms(4) by simp
  have enc: "list_all encodable ?lines"
    using assms(5,6) by (simp add: encodable_concat)
  define w4 where "w4 = w3\<lparr>files := (files w3)(?path \<mapsto> Text patched)\<rparr>"
  have p: "replace_code_in_file ?path (add_indentation ?new (get_starting_indentation code))
             line_start line_end w3 = (Inr (), w4)"
    using rd writelines_encodable [OF enc] assms(5)
    by (simp add: replace_code_in_file_def w4_def)
  have f4: "files w4 = (files w)(?path \<mapsto> Text patched)"
    and r4: "requests w4 = requests w @ [(fix_prompt fix, error_message warning @ [nl] @ code)]"
    using f3 r3 by (simp_all add: w4_def)
  have "0 \<notin> set ?path"
    using assms(4) by (rule read_file_path)
  then have "read_file w4 ?path = Inr (universal_newlines patched)"
    by (simp add: read_file_def f4)
  then have v: "fst (check_python_file ext ?path w4) \<longleftrightarrow>
                compile_source ext (universal_newlines patched) = None"
    by (simp add: check_python_file_fst)
  obtain w5 where c5: "check_python_file ext ?path w4 = (fst (check_python_file ext ?path w4), w5)"
    and f5: "files w5 = files w4" and r5: "requests w5 = requests w4"
    using check_python_file_cases [of ext ?path w4] by metis
  have "apply_fix_to_warning ext fix warning w =
          (if compile_source ext (universal_newlines patched) = None then Inr ()
           else Inl AssertionError, w5)"
  proof (cases "compile_source ext (universal_newlines patched) = None")
    case True
    with v c5 have "check_python_file ext ?path w4 = (True, w5)" by simp
    then show ?thesis
      unfolding apply_fix_to_warning_def Let_def c using x a p True by simp
  next
    case False
    with v c5 have "check_python_file ext ?path w4 = (False, w5)" by simp
    then show ?thesis
      unfolding apply_fix_to_warning_def Let_def c using x a p False by simp
  qed
  then show ?thesis
    using f4 f5 r4 r5 by simp
qed
section \<open>Facts about the pattern\<close>

lemma lazy_group_head:
  assumes "\<not> is_space c" and "lazy_group (c # cs) = Some g"
  shows "g \<noteq> [] \<and> hd g = c"
proof -
  have "\<not> closes (c # cs)"
    using assms(1) by (simp add: closes_def)
  with assms(2) show ?thesis by auto
qed

lemma lazy_group_after_space:
  assumes "lazy_group cs = None" and "lazy_group (c # cs) = Some g"
  shows "g = []"
  using assms by (simp split: if_splits)

lemma drop_takeWhile_length: "drop (length (takeWhile P s)) s = dropWhile P s"
  by (induction s) simp_all

lemma greedy_space_stripped:
  assumes "k \<le> length (takeWhile is_space s)"
    and "\<And>j. k < j \<Longrightarrow> j \<le> length (takeWhile is_space s) \<Longrightarrow> lazy_group (drop j s) = None"
    and "greedy_space k s = Some g"
  shows "g = [] \<or> \<not> is_space (hd g)"
  using assms
proof (induction k)
  case 0
  then show ?case by simp
next
  case (Suc k)
  let ?m = "length (takeWhile is_space s)"
  show ?case
  proof (cases "lazy_group (drop (Suc k) s)")
    case None
    have "lazy_group (drop j s) = None" if "k < j" and "j \<le> ?m" for j
    proof (cases "j = Suc k")
      case True
      with None show ?thesis by simp
    next
      case False
      with that have "Suc k < j" by simp
      then show ?thesis using Suc.prems(2) that(2) by simp
    qed
    moreover have "greedy_space k s = Some g"
      using Suc.prems(3) None by simp
    moreover have "k \<le> ?m"
      using Suc.prems(1) by simp
    ultimately show ?thesis
      using Suc.IH by blast
  next
    case (Some g')
    with Suc.prems(3) have g: "lazy_group (drop (Suc k) s) = Some g" by simp
    show ?thesis
    proof (cases "Suc k = ?m")
      case True
      then have d: "drop (Suc k) s = dropWhile is_space s"
        by (simp add: drop_takeWhile_length)
      show ?thesis
      proof (cases "dropWhile is_space s")
        case Nil
        with g d show ?thesis by simp
      next
        case (Cons c cs)
        then have "\<not> is_space c"
          using hd_dropWhile [of is_space s] by simp
        with g d Cons show ?thesis
          using lazy_group_head [of c cs g] by simp
      qed
    next
      case False
      with Suc.prems(1) have lt: "Suc k < ?m" by simp
      then have "Suc k < length s"
        using length_takeWhile_le [of is_space s] by simp
      then have d: "drop (Suc k) s = s ! Suc k # drop (Suc (Suc k)) s"
        by (simp add: Cons_nth_drop_Suc)
      have "lazy_group (drop (Suc (Suc k)) s) = None"
        using Suc.prems(2) [of "Suc (Suc k)"] lt by simp
      with g d show ?thesis
        using lazy_group_after_space [of "drop (Suc (Suc k)) s" "s ! Suc k" g] by simp
    qed
  qed
qed

lemma match_here_stripped: "match_here s = Some g \<Longrightarrow> g = [] \<or> \<not> is_space (hd g)"
  using greedy_space_stripped [of "length (takeWhile is_space (drop 9 s))" "drop 9 s" g]
  by (simp add: match_here_def split: if_splits)

lemma re_search_stripped: "re_search s = Some g \<Longrightarrow> g = [] \<or> \<not> is_space (hd g)"
proof (induction s)
  case Nil
  then show ?case by simp
next
  case (Cons c cs)
  show ?case
  proof (cases "match_here (c # cs)")
    case None
    with Cons show ?thesis by simp
  next
    case (Some g')
    with Cons.prems have "match_here (c # cs) = Some g" by simp
    then show ?thesis by (rule match_here_stripped)
  qed
qed

lemma get_starting_indentation_stripped:
  assumes "g = [] \<or> \<not> is_space (hd g)"
  shows "get_starting_indentation g = 0"
proof (cases g)
  case Nil
  then show ?thesis by (simp add: get_starting_indentation_def py_strip_def)
next
  case (Cons c cs)
  with assms have c: "\<not> is_space c" by simp
  then have "c \<noteq> nl" by (auto simp: is_space_def)
  then have s: "split_on nl g = (c # hd (split_on nl cs)) # tl (split_on nl cs)"
    using Cons by simp
  have "py_strip (c # hd (split_on nl cs)) \<noteq> []"
    using c by (auto simp: py_strip_Nil_iff)
  then show ?thesis
    using c by (simp add: get_starting_indentation_def s py_lstrip_def)
qed











section \<open>Facts about the report parser\<close>

lemma parse_lines_result:
  "parse_lines ext lines acc w =
     (acc @ map (\<lambda>line. \<lparr>file_path = py_strip (split_on colon (py_strip line) ! 0),
                           line_number = the (int_of ext (split_on colon (py_strip line) ! 1)),
                           character = py_strip (split_on colon (py_strip line) ! 2),
                           error_code = py_strip (split_on colon (py_strip line) ! 3),
                           error_message = py_strip (split_on colon (py_strip line) ! 4)\<rparr>)
              (filter (\<lambda>line. 5 \<le> length (split_on colon (py_strip line)) \<and>
                              int_of ext (split_on colon (py_strip line) ! 1) \<noteq> None) lines),
      w\<lparr>logs := logs w @
           map (\<lambda>line. (WARNING, ''Skipping line due to parsing error: {line}'', [S line]))
             (filter (\<lambda>line. 5 \<le> length (split_on colon (py_strip line)) \<and>
                             int_of ext (split_on colon (py_strip line) ! 1) = None) lines)\<rparr>)"
proof (induction lines arbitrary: acc w)
  case Nil
  then show ?case by simp
next
  case (Cons line rest)
  show ?case
  proof (cases "5 \<le> length (split_on colon (py_strip line))")
    case False
    then show ?thesis by (simp add: Cons.IH Let_def)
  next
    case True
    show ?thesis
    proof (cases "int_of ext (split_on colon (py_strip line) ! 1)")
      case None
      with True show ?thesis by (simp add: Cons.IH Let_def logging_def)
    next
      case (Some n)
      with True show ?thesis by (simp add: Cons.IH Let_def)
    qed
  qed
qed

text \<open>An equation for \<open>split_on\<close> that evaluates the rest of the text once.\<close>

lemma split_on_Cons_once:
  "split_on sep (c # cs) =
     (if c = sep then [] # split_on sep cs
      else (case split_on sep cs of p # ps \<Rightarrow> (c # p) # ps))"
  using split_on_not_Nil [of sep cs] by (cases "split_on sep cs") simp_all
section \<open>Facts about the walk\<close>

lemma find_append_cases:
  "find P (xs @ ys) = (case find P xs of Some x \<Rightarrow> Some x | None \<Rightarrow> find P ys)"
  by (induction xs) simp_all

lemma walk_queue_append: "walk_queue (xs @ ys) = xs @ walk_queue (ys @ child_nodes xs)"
proof (induction xs arbitrary: ys)
  case Nil
  then show ?case by (simp add: child_nodes_def)
next
  case (Cons x xs)
  have "walk_queue ((x # xs) @ ys) = x # walk_queue (xs @ (ys @ children x))"
    by simp
  also have "\<dots> = x # xs @ walk_queue ((ys @ children x) @ child_nodes xs)"
    by (simp only: Cons.IH)
  finally show ?case by (simp add: child_nodes_def)
qed

lemma walk_queue_levels: "walk_queue xs = xs @ walk_queue (child_nodes xs)"
  using walk_queue_append [of xs "[]"] by simp

lemma find_walk_queue_levels:
  "find P (walk_queue xs) =
     (case find P xs of Some x \<Rightarrow> Some x | None \<Rightarrow> find P (walk_queue (child_nodes xs)))"
  using walk_queue_levels [of xs] find_append_cases [of P xs "walk_queue (child_nodes xs)"]
  by simp

lemma size_child_nodes: "xs \<noteq> [] \<Longrightarrow> sum_list (map size (child_nodes xs)) < sum_list (map size xs)"
proof (induction xs)
  case Nil
  then show ?case by simp
next
  case (Cons x xs)
  have c: "sum_list (map size (children x)) < size x"
    by (cases x) (simp add: size_list_conv_sum_list)
  show ?case
  proof (cases "xs = []")
    case True
    with c show ?thesis by (simp add: child_nodes_def)
  next
    case False
    with Cons.IH c show ?thesis by (simp add: child_nodes_def)
  qed
qed

lemma find_walk_queue_first:
  "find P (walk_queue xs) = Some n \<Longrightarrow>
   \<exists>k. find P ((child_nodes ^^ k) xs) = Some n \<and>
       (\<forall>i < k. \<forall>x \<in> set ((child_nodes ^^ i) xs). \<not> P x)"
proof (induction "sum_list (map size xs)" arbitrary: xs rule: less_induct)
  case less
  show ?case
  proof (cases "find P xs")
    case (Some n')
    with less.prems have "find P xs = Some n"
      by (simp add: find_walk_queue_levels [of P xs])
    then show ?thesis by (intro exI [of _ 0]) simp
  next
    case None
    have "xs \<noteq> []"
      using less.prems by auto
    then have d: "sum_list (map size (child_nodes xs)) < sum_list (map size xs)"
      by (rule size_child_nodes)
    have "find P (walk_queue xs) = find P (walk_queue (child_nodes xs))"
      using None by (simp add: find_walk_queue_levels [of P xs])
    with less.prems have "find P (walk_queue (child_nodes xs)) = Some n" by simp
    from less.hyps [OF d this] obtain k
      where k: "find P ((child_nodes ^^ k) (child_nodes xs)) = Some n"
        and e: "\<forall>i < k. \<forall>x \<in> set ((child_nodes ^^ i) (child_nodes xs)). \<not> P x"
      by blast
    have "\<not> P x" if "i < Suc k" and "x \<in> set ((child_nodes ^^ i) xs)" for i x
    proof (cases i)
      case 0
      with that None show ?thesis by (auto simp: find_None_iff)
    next
      case (Suc i')
      with that e show ?thesis by (auto simp: funpow_swap1)
    qed
    moreover have "find P ((child_nodes ^^ Suc k) xs) = Some n"
      using k by (simp add: funpow_swap1)
    ultimately show ?thesis by blast
  qed
qed

lemma find_walk_queue_some:
  "m \<in> set ((child_nodes ^^ k) xs) \<Longrightarrow> P m \<Longrightarrow> find P (walk_queue xs) \<noteq> None"
proof (induction k arbitrary: xs)
  case 0
  then have "find P xs \<noteq> None" by (auto simp: find_None_iff)
  then show ?case
    by (auto simp: find_walk_queue_levels [of P xs])
next
  case (Suc k)
  then have "m \<in> set ((child_nodes ^^ k) (child_nodes xs))" by (simp add: funpow_swap1)
  from Suc.IH [OF this Suc.prems(2)] have "find P (walk_queue (child_nodes xs)) \<noteq> None" .
  then show ?case
    by (auto simp: find_walk_queue_levels [of P xs] split: option.splits)
qed
section \<open>Claims\<close>

text \<open>
  C8. For every replacement text and every indentation width \<open>w\<close>, every non-blank line
  of the output of \<^verbatim>\<open>add_indentation\<close> (a line whose \<^verbatim>\<open>strip()\<close> is not empty)
  begins with at least \<open>w\<close> spaces.
\<close>

theorem add_indentation_leading_spaces:
  "\<forall>l \<in> set (split_on nl (add_indentation code w)).
     py_strip l \<noteq> [] \<longrightarrow> nat w \<le> leading_spaces l"
proof
  fix l
  assume "l \<in> set (split_on nl (add_indentation code w))"
  then have "l \<in> set (map (indent_line w) (split_on nl code)) \<or> l = []"
    by (auto simp: lines_add_indentation)
  then show "py_strip l \<noteq> [] \<longrightarrow> nat w \<le> leading_spaces l"
  proof
    assume "l \<in> set (map (indent_line w) (split_on nl code))"
    then obtain l0 where l: "l = indent_line w l0" by auto
    show ?thesis
    proof
      assume "py_strip l \<noteq> []"
      then have "py_strip l0 \<noteq> []"
        using l indent_line_blank_iff by simp
      then show "nat w \<le> leading_spaces l"
        using l leading_spaces_indent_line by simp
    qed
  next
    assume "l = []"
    then show ?thesis by (simp add: py_strip_def)
  qed
qed


theorem add_indentation_leading_spaces_witness:
  "ustr ''    pass'' \<in> set (split_on nl (add_indentation (ustr ''pass'') 4)) \<and>
   py_strip (ustr ''    pass'') \<noteq> [] \<and>
   nat 4 \<le> leading_spaces (ustr ''    pass'')"
proof -
  have m: "ustr ''    pass'' \<in> set (split_on nl (add_indentation (ustr ''pass'') 4))"
    by (simp add: text_eval)
  have n: "py_strip (ustr ''    pass'') \<noteq> []"
    by (simp add: text_eval)
  from add_indentation_leading_spaces [of "ustr ''pass''" 4] m n
  have "nat 4 \<le> leading_spaces (ustr ''    pass'')" by blast
  with m n show ?thesis by blast
qed

text \<open>
  C3 (as the code has it). The replacement is what \<^verbatim>\<open>anthropic_request\<close> extracts from
  the response. When the response holds a fenced block, the pattern has taken all the
  whitespace before the block's first character, so the replacement is empty or starts
  with a character that is not whitespace: its first line is not blank and has
  indentation zero. When the response holds no fenced block, the replacement is the
  response as it is, with nothing stripped. In both cases the lines of
  \<^verbatim>\<open>add_indentation(new_code, get_starting_indentation(code))\<close> are the lines of the
  replacement, each non-blank one prefixed with \<open>w\<close> spaces and each blank one as it is,
  and an empty last line for the newline appended; for an original span whose first
  non-blank line is indented with spaces only, \<open>w\<close> is the number of leading spaces of
  that line, 0 when the span has no such line.
\<close>

theorem reindentation_lines:
  assumes "\<forall>l. find (\<lambda>l. py_strip l \<noteq> []) (split_on nl code) = Some l \<longrightarrow>
               leading_whitespace l = leading_spaces l"
  shows "(re_search response = None \<longrightarrow> fst (extract_code response w) = response) \<and>
         (\<forall>g. re_search response = Some g \<longrightarrow>
               fst (extract_code response w) = g \<and> (g = [] \<or> \<not> is_space (hd g)) \<and>
               get_starting_indentation g = 0) \<and>
         split_on nl (add_indentation (fst (extract_code response w))
                        (get_starting_indentation code)) =
           map (\<lambda>line. if py_strip line = [] then line
                        else replicate
                               (case find (\<lambda>l. py_strip l \<noteq> []) (split_on nl code) of
                                  None \<Rightarrow> 0 | Some l \<Rightarrow> leading_spaces l) space @ line)
               (split_on nl (fst (extract_code response w))) @ [[]]"
proof -
  have "nat (get_starting_indentation code) =
          (case find (\<lambda>l. py_strip l \<noteq> []) (split_on nl code) of
             None \<Rightarrow> 0 | Some l \<Rightarrow> leading_spaces l)"
    using assms
    by (simp add: get_starting_indentation_def first_indentation_find split: option.split)
  then have lines: "split_on nl (add_indentation new_code (get_starting_indentation code)) =
           map (\<lambda>line. if py_strip line = [] then line
                        else replicate
                               (case find (\<lambda>l. py_strip l \<noteq> []) (split_on nl code) of
                                  None \<Rightarrow> 0 | Some l \<Rightarrow> leading_spaces l) space @ line)
               (split_on nl new_code) @ [[]]" for new_code
    by (simp add: lines_add_indentation indent_line_def)
  have raw: "fst (extract_code response w) = response" if "re_search response = None"
    using that by (simp add: extract_code_def Let_def)
  have fenced: "fst (extract_code response w) = g \<and> (g = [] \<or> \<not> is_space (hd g)) \<and>
                get_starting_indentation g = 0" if "re_search response = Some g" for g
    using that re_search_stripped [OF that]
      get_starting_indentation_stripped [OF re_search_stripped [OF that]]
    by (simp add: extract_code_def Let_def)
  from raw fenced lines show ?thesis by blast
qed

theorem reindentation_lines_witness:
  "re_search (ustr ''Here:\<newline>```python\<newline>  x\<newline>```'') = Some (ustr ''x'') \<and>
   fst (extract_code (ustr ''Here:\<newline>```python\<newline>  x\<newline>```'') (one_file [] [])) = ustr ''x'' \<and>
   get_starting_indentation (ustr ''x'') = 0 \<and>
   split_on nl (add_indentation
       (fst (extract_code (ustr ''Here:\<newline>```python\<newline>  x\<newline>```'') (one_file [] [])))
       (get_starting_indentation (ustr ''    y''))) = [ustr ''    x'', []]"
proof -
  have h: "\<forall>l. find (\<lambda>l. py_strip l \<noteq> []) (split_on nl (ustr ''    y'')) = Some l \<longrightarrow>
               leading_whitespace l = leading_spaces l"
    by (simp add: text_eval)
  have r: "re_search (ustr ''Here:\<newline>```python\<newline>  x\<newline>```'') = Some (ustr ''x'')"
    by (simp add: match_here_def python_fence_def fence_def closes_def text_eval)
  have x: "split_on nl (ustr ''x'') = [ustr ''x'']" and y: "split_on nl (ustr ''    y'') = [ustr ''    y'']"
    by (simp_all add: text_eval)
  note t = reindentation_lines [OF h, of "ustr ''Here:\<newline>```python\<newline>  x\<newline>```''" "one_file [] []"]
  note f = t [THEN conjunct2, THEN conjunct1, rule_format, OF r]
  note l = t [THEN conjunct2, THEN conjunct2]
  have "split_on nl (add_indentation
           (fst (extract_code (ustr ''Here:\<newline>```python\<newline>  x\<newline>```'') (one_file [] [])))
           (get_starting_indentation (ustr ''    y''))) = [ustr ''    x'', []]"
    unfolding l unfolding f [THEN conjunct1] x y by (simp add: text_eval)
  with r f show ?thesis by simp
qed

text \<open>
  C3 as stated fails on a response with no fenced block: the raw response is the
  replacement, and one indented by two spaces, put in place of a span indented by four,
  comes out indented by six, not by four.
\<close>

theorem reindentation_strips_counterexample:
  "re_search (ustr ''  x'') = None \<and>
   fst (extract_code (ustr ''  x'') (one_file [] [])) = ustr ''  x'' \<and>
   get_starting_indentation (ustr ''    y'') = 4 \<and>
   add_indentation (fst (extract_code (ustr ''  x'') (one_file [] [])))
     (get_starting_indentation (ustr ''    y'')) = ustr ''      x\<newline>'' \<and>
   add_indentation (fst (extract_code (ustr ''  x'') (one_file [] [])))
     (get_starting_indentation (ustr ''    y'')) \<noteq> ustr ''    x\<newline>''"
proof -
  have r: "re_search (ustr ''  x'') = None"
    by (simp add: match_here_def python_fence_def fence_def text_eval)
  then have "fst (extract_code (ustr ''  x'') (one_file [] [])) = ustr ''  x''"
    by (simp add: extract_code_def Let_def)
  with r show ?thesis
    by (simp add: text_eval)
qed

text \<open>
  C6. The validator returns a boolean: true exactly when the file can be read (it exists
  and decodes) and its text compiles; every exception raised while reading or compiling
  gives false, so none leaves \<^verbatim>\<open>check_python_file\<close>. It changes no file and calls
  no suggester.
\<close>

theorem check_python_file_total:
  "(fst (check_python_file ext path w) \<longleftrightarrow>
      (\<exists>script. read_file w path = Inr script \<and> compile_source ext script = None)) \<and>
   (check_python_file_try ext path w = Inl e \<longrightarrow> \<not> fst (check_python_file ext path w)) \<and>
   files (snd (check_python_file ext path w)) = files w \<and>
   requests (snd (check_python_file ext path w)) = requests w"
  by (auto simp: check_python_file_fst)
     (auto simp: check_python_file_try_def split: sum.splits option.splits)


theorem check_python_file_total_witness:
  "check_python_file_try (example_ext [] [] []) (ustr ''./a.py'')
     (one_file (ustr ''./a.py'') (ustr ''x = (\<newline>'')) = Inl SyntaxError \<and>
   \<not> fst (check_python_file (example_ext [] [] []) (ustr ''./a.py'')
            (one_file (ustr ''./a.py'') (ustr ''x = (\<newline>'')))"
proof -
  have t: "check_python_file_try (example_ext [] [] []) (ustr ''./a.py'')
             (one_file (ustr ''./a.py'') (ustr ''x = (\<newline>'')) = Inl SyntaxError"
    by (simp add: check_python_file_try_def read_file_def one_file_def example_ext_def
        accepting_def ustr_def)
  from check_python_file_total [of "example_ext [] [] []" "ustr ''./a.py''"
      "one_file (ustr ''./a.py'') (ustr ''x = (\<newline>'')" SyntaxError] t
  show ?thesis by blast
qed

text \<open>
  C10. When the pre-check of the target file fails, \<^verbatim>\<open>apply_fix_to_warning\<close> returns
  without an exception, has written no file and has called no suggester.
\<close>

theorem apply_fix_skips_invalid_file:
  assumes "\<not> fst (check_python_file ext
                  (ustr ''./'' @ py_replace backslash slash (file_path warning)) w)"
  shows "fst (apply_fix_to_warning ext fix warning w) = Inr () \<and>
         files (snd (apply_fix_to_warning ext fix warning w)) = files w \<and>
         requests (snd (apply_fix_to_warning ext fix warning w)) = requests w"
proof -
  let ?path = "ustr ''./'' @ py_replace backslash slash (file_path warning)"
  obtain b w1 where c: "check_python_file ext ?path w = (b, w1)"
    by (cases "check_python_file ext ?path w")
  from assms c have b: "\<not> b" by simp
  have "files w1 = files w" and "requests w1 = requests w"
    using check_python_file_files [of ext ?path w] check_python_file_requests [of ext ?path w] c
    by simp_all
  moreover have "apply_fix_to_warning ext fix warning w = (Inr (), w1)"
    using b c by (simp add: apply_fix_to_warning_def)
  ultimately show ?thesis by simp
qed

theorem apply_fix_skips_invalid_file_witness:
  "\<not> fst (check_python_file (example_ext [] [] [])
            (ustr ''./'' @ py_replace backslash slash (file_path (a_warning 1 ''C1803'')))
            (one_file (ustr ''./a.py'') (ustr ''x = (\<newline>''))) \<and>
   fst (apply_fix_to_warning (example_ext [] [] []) (pylint_fix ''x'' ''C1803'' LINE)
          (a_warning 1 ''C1803'') (one_file (ustr ''./a.py'') (ustr ''x = (\<newline>''))) = Inr () \<and>
   files (snd (apply_fix_to_warning (example_ext [] [] []) (pylint_fix ''x'' ''C1803'' LINE)
          (a_warning 1 ''C1803'') (one_file (ustr ''./a.py'') (ustr ''x = (\<newline>''))))
     = files (one_file (ustr ''./a.py'') (ustr ''x = (\<newline>''))"
proof -
  have c: "\<not> fst (check_python_file (example_ext [] [] [])
            (ustr ''./'' @ py_replace backslash slash (file_path (a_warning 1 ''C1803'')))
            (one_file (ustr ''./a.py'') (ustr ''x = (\<newline>'')))"
    by (simp add: check_python_file_fst read_file_def one_file_def example_ext_def accepting_def
        ustr_def py_replace_def a_warning_def)
  from apply_fix_skips_invalid_file [OF c, of "pylint_fix ''x'' ''C1803'' LINE"] c
  show ?thesis by blast
qed

text \<open>
  C1 (as the code has it). For a warning whose line number exceeds the number of lines of
  its file, when the file passes the pre-check and the fix asks for the line (or for the
  method, and the range of no function definition of the tree holds the line), span
  location raises \<^verbatim>\<open>IndexError\<close>. Nothing catches it: it leaves
  \<^verbatim>\<open>apply_fix_to_warning\<close> and ends the loop over the warnings. The file is left
  untouched and no request is made to the suggester.
\<close>

theorem line_beyond_file_raises:
  assumes "fst (check_python_file ext (ustr ''./'' @ py_replace backslash slash (file_path warning)) w)"
    and "read_file w (ustr ''./'' @ py_replace backslash slash (file_path warning)) = Inr text"
    and "int (length (readlines text)) < line_number warning"
    and "fix_context fix = LINE \<or>
         fix_context fix = METHOD \<and>
           (\<exists>tree. ast_parse ext text = Inr tree \<and>
                   find (encloses (line_number warning)) (walk tree) = None)"
  shows "fst (apply_fix_to_warning ext fix warning w) = Inl IndexError \<and>
         files (snd (apply_fix_to_warning ext fix warning w)) = files w \<and>
         requests (snd (apply_fix_to_warning ext fix warning w)) = requests w \<and>
         (find (\<lambda>fix. fix_code fix = error_code warning) fixes = Some fix \<longrightarrow>
            fst (fix_each ext fixes (warning # rest) w) = Inl IndexError \<and>
            files (snd (fix_each ext fixes (warning # rest) w)) = files w \<and>
            requests (snd (fix_each ext fixes (warning # rest) w)) = requests w)"
proof -
  have "fst (extract_code_from_context ext
               (ustr ''./'' @ py_replace backslash slash (file_path warning))
               (line_number warning) (fix_context fix) w) = Inl IndexError"
    using assms(2,3,4) by (rule extract_code_beyond)
  with assms(1) have a: "fst (apply_fix_to_warning ext fix warning w) = Inl IndexError \<and>
         files (snd (apply_fix_to_warning ext fix warning w)) = files w \<and>
         requests (snd (apply_fix_to_warning ext fix warning w)) = requests w"
    by (rule apply_fix_to_warning_extraction_raises)
  then obtain w' where "apply_fix_to_warning ext fix warning w = (Inl IndexError, w')"
    by (metis prod.collapse)
  then have "fix_each ext fixes (warning # rest) w = apply_fix_to_warning ext fix warning w"
    if "find (\<lambda>fix. fix_code fix = error_code warning) fixes = Some fix"
    using that by simp
  with a show ?thesis by simp
qed

theorem line_beyond_file_raises_witness:
  "fst (apply_fix_to_warning (example_ext [ustr ''x = 1\<newline>''] [] [])
          (pylint_fix ''chained-comparison'' ''R1716'' LINE) (a_warning 999 ''R1716'')
          (one_file (ustr ''./a.py'') (ustr ''x = 1\<newline>''))) = Inl IndexError \<and>
   files (snd (apply_fix_to_warning (example_ext [ustr ''x = 1\<newline>''] [] [])
          (pylint_fix ''chained-comparison'' ''R1716'' LINE) (a_warning 999 ''R1716'')
          (one_file (ustr ''./a.py'') (ustr ''x = 1\<newline>''))))
     = files (one_file (ustr ''./a.py'') (ustr ''x = 1\<newline>'')) \<and>
   fst (fix_each (example_ext [ustr ''x = 1\<newline>''] [] []) PYLINT_FIXES [a_warning 999 ''R1716'']
          (one_file (ustr ''./a.py'') (ustr ''x = 1\<newline>''))) = Inl IndexError"
proof -
  let ?ext = "example_ext [ustr ''x = 1\<newline>''] [] []"
  let ?w = "one_file (ustr ''./a.py'') (ustr ''x = 1\<newline>'')"
  let ?path = "ustr ''./'' @ py_replace backslash slash (file_path (a_warning 999 ''R1716''))"
  have p: "?path = ustr ''./a.py''"
    by (simp add: a_warning_def py_replace_def ustr_def)
  have r: "read_file ?w ?path = Inr (ustr ''x = 1\<newline>'')"
    unfolding p by (simp add: read_file_def one_file_def ustr_def)
  have c: "fst (check_python_file ?ext ?path ?w)"
    unfolding check_python_file_fst r by (simp add: example_ext_def accepting_def)
  have n: "int (length (readlines (ustr ''x = 1\<newline>''))) < line_number (a_warning 999 ''R1716'')"
    by (simp add: a_warning_def ustr_def)
  have k: "fix_context (pylint_fix ''chained-comparison'' ''R1716'' LINE) = LINE \<or>
           fix_context (pylint_fix ''chained-comparison'' ''R1716'' LINE) = METHOD \<and>
           (\<exists>tree. ast_parse ?ext (ustr ''x = 1\<newline>'') = Inr tree \<and>
                   find (encloses (line_number (a_warning 999 ''R1716''))) (walk tree) = None)"
    by (simp add: pylint_fix_def)
  have f: "find (\<lambda>fix. fix_code fix = error_code (a_warning 999 ''R1716'')) PYLINT_FIXES
             = Some (pylint_fix ''chained-comparison'' ''R1716'' LINE)"
    by (simp add: PYLINT_FIXES_def pylint_fix_def a_warning_def ustr_def)
  from line_beyond_file_raises [OF c r n k, of PYLINT_FIXES "[]"] f show ?thesis by blast
qed

text \<open>
  C1 as stated fails: for line 999 of a file of one line the warning is not skipped;
  \<^verbatim>\<open>IndexError\<close> ends the loop of \<^verbatim>\<open>auto_fix\<close> over the warnings, and the warning
  that was to be handled next (line 1) is never reached: no request is made.
\<close>

theorem line_beyond_file_counterexample:
  "fst (fix_warnings (example_ext [ustr ''x = 1\<newline>''] [] [])
          [a_warning 1 ''R1716'', a_warning 999 ''R1716'']
          (one_file (ustr ''./a.py'') (ustr ''x = 1\<newline>''))) = Inl IndexError \<and>
   requests (snd (fix_warnings (example_ext [ustr ''x = 1\<newline>''] [] [])
          [a_warning 1 ''R1716'', a_warning 999 ''R1716'']
          (one_file (ustr ''./a.py'') (ustr ''x = 1\<newline>'')))) = []"
proof -
  let ?ext = "example_ext [ustr ''x = 1\<newline>''] [] []"
  let ?w = "one_file (ustr ''./a.py'') (ustr ''x = 1\<newline>'')"
  let ?fix = "pylint_fix ''chained-comparison'' ''R1716'' LINE"
  let ?path = "ustr ''./'' @ py_replace backslash slash (file_path (a_warning 999 ''R1716''))"
  have p: "?path = ustr ''./a.py''"
    by (simp add: a_warning_def py_replace_def ustr_def)
  have r: "read_file ?w ?path = Inr (ustr ''x = 1\<newline>'')"
    unfolding p by (simp add: read_file_def one_file_def ustr_def)
  have c: "fst (check_python_file ?ext ?path ?w)"
    unfolding check_python_file_fst r by (simp add: example_ext_def accepting_def)
  have n: "int (length (readlines (ustr ''x = 1\<newline>''))) < line_number (a_warning 999 ''R1716'')"
    by (simp add: a_warning_def ustr_def)
  have "fst (extract_code_from_context ?ext ?path (line_number (a_warning 999 ''R1716''))
               (fix_context ?fix) ?w) = Inl IndexError"
    using r n by (rule extract_code_beyond) (simp add: pylint_fix_def)
  with c have a: "fst (apply_fix_to_warning ?ext ?fix (a_warning 999 ''R1716'') ?w) = Inl IndexError \<and>
         files (snd (apply_fix_to_warning ?ext ?fix (a_warning 999 ''R1716'') ?w)) = files ?w \<and>
         requests (snd (apply_fix_to_warning ?ext ?fix (a_warning 999 ''R1716'') ?w)) = requests ?w"
    by (rule apply_fix_to_warning_extraction_raises)
  then obtain w' where w': "apply_fix_to_warning ?ext ?fix (a_warning 999 ''R1716'') ?w = (Inl IndexError, w')"
    by (metis prod.collapse)
  have f: "find (\<lambda>fix. fix_code fix = error_code (a_warning 999 ''R1716'')) PYLINT_FIXES = Some ?fix"
    by (simp add: PYLINT_FIXES_def pylint_fix_def a_warning_def ustr_def)
  have "fix_warnings ?ext [a_warning 1 ''R1716'', a_warning 999 ''R1716''] ?w = (Inl IndexError, w')"
    unfolding fix_warnings_def using f w' by simp
  with a w' show ?thesis by (simp add: one_file_def)
qed

text \<open>
  C4 (as the code has it). When the patch has been written and the validation after it
  fails, \<^verbatim>\<open>apply_fix_to_warning\<close> raises \<^verbatim>\<open>AssertionError\<close>; nothing restores the
  file: it holds the patched text, which the validator refuses.
\<close>

theorem failed_validation_keeps_patch:
  assumes "fst (check_python_file ext (ustr ''./'' @ py_replace backslash slash (file_path warning)) w)"
    and "fst (extract_code_from_context ext
               (ustr ''./'' @ py_replace backslash slash (file_path warning))
               (line_number warning) (fix_context fix) w) = Inr (code, line_start, line_end)"
    and "messages_create ext (fix_prompt fix) (error_message warning @ [nl] @ code) = Inr response"
    and "read_file w (ustr ''./'' @ py_replace backslash slash (file_path warning)) = Inr text"
    and "patched = concat (replace_lines (readlines text)
           (add_indentation (case re_search response of Some g \<Rightarrow> g | None \<Rightarrow> response)
              (get_starting_indentation code)) line_start line_end)"
    and "encodable patched"
    and "compile_source ext (universal_newlines patched) \<noteq> None"
  shows "fst (apply_fix_to_warning ext fix warning w) = Inl AssertionError \<and>
         files (snd (apply_fix_to_warning ext fix warning w)) =
           (files w)(ustr ''./'' @ py_replace backslash slash (file_path warning) \<mapsto> Text patched) \<and>
         \<not> fst (check_python_file ext (ustr ''./'' @ py_replace backslash slash (file_path warning))
                 (snd (apply_fix_to_warning ext fix warning w)))"
proof -
  let ?path = "ustr ''./'' @ py_replace backslash slash (file_path warning)"
  let ?w' = "snd (apply_fix_to_warning ext fix warning w)"
  have a: "fst (apply_fix_to_warning ext fix warning w) = Inl AssertionError"
    and f: "files ?w' = (files w)(?path \<mapsto> Text patched)"
    using apply_fix_to_warning_patch [OF assms(1-6)] assms(7) by simp_all
  have "0 \<notin> set ?path"
    using assms(4) by (rule read_file_path)
  then have "read_file ?w' ?path = Inr (universal_newlines patched)"
    by (simp add: read_file_def f)
  then have "\<not> fst (check_python_file ext ?path ?w')"
    using assms(7) by (simp add: check_python_file_fst)
  with a f show ?thesis by simp
qed

theorem failed_validation_keeps_patch_witness:
  "fst (apply_fix_to_warning (example_ext [ustr ''x = 1\<newline>''] [] (ustr ''x = (''))
          (pylint_fix ''chained-comparison'' ''R1716'' LINE) (a_warning 1 ''R1716'')
          (one_file (ustr ''./a.py'') (ustr ''x = 1\<newline>''))) = Inl AssertionError \<and>
   files (snd (apply_fix_to_warning (example_ext [ustr ''x = 1\<newline>''] [] (ustr ''x = (''))
          (pylint_fix ''chained-comparison'' ''R1716'' LINE) (a_warning 1 ''R1716'')
          (one_file (ustr ''./a.py'') (ustr ''x = 1\<newline>'')))) (ustr ''./a.py'')
     = Some (Text (ustr ''x = (\<newline>''))"
proof -
  let ?ext = "example_ext [ustr ''x = 1\<newline>''] [] (ustr ''x = ('')"
  let ?w = "one_file (ustr ''./a.py'') (ustr ''x = 1\<newline>'')"
  let ?fix = "pylint_fix ''chained-comparison'' ''R1716'' LINE"
  let ?path = "ustr ''./'' @ py_replace backslash slash (file_path (a_warning 1 ''R1716''))"
  have p: "?path = ustr ''./a.py''"
    by (simp add: a_warning_def py_replace_def ustr_def)
  have r: "read_file ?w ?path = Inr (ustr ''x = 1\<newline>'')"
    unfolding p by (simp add: read_file_def one_file_def ustr_def)
  have c: "fst (check_python_file ?ext ?path ?w)"
    unfolding check_python_file_fst r by (simp add: example_ext_def accepting_def)
  have x: "fst (extract_code_from_context ?ext ?path (line_number (a_warning 1 ''R1716''))
                  (fix_context ?fix) ?w) = Inr (ustr ''x = 1\<newline>'', 1, 1)"
    unfolding extract_code_from_context_def extract_line_def r
    by (simp add: pylint_fix_def a_warning_def py_index_def ustr_def)
  have m: "messages_create ?ext (fix_prompt ?fix)
             (error_message (a_warning 1 ''R1716'') @ [nl] @ ustr ''x = 1\<newline>'') = Inr (ustr ''x = ('')"
    by (simp add: example_ext_def)
  have s: "re_search (ustr ''x = ('') = None"
    by (simp add: match_here_def python_fence_def fence_def text_eval)
  have t: "ustr ''x = (\<newline>'' = concat (replace_lines (readlines (ustr ''x = 1\<newline>''))
           (add_indentation (case re_search (ustr ''x = ('') of Some g \<Rightarrow> g | None \<Rightarrow> ustr ''x = ('')
              (get_starting_indentation (ustr ''x = 1\<newline>''))) 1 1)"
    unfolding s
    by (simp add: replace_lines_def py_del_slice_def py_insert_def slice_bound_def text_eval)
  have e: "encodable (ustr ''x = (\<newline>'')"
    by (simp add: encodable_def ustr_def)
  have b: "compile_source ?ext (universal_newlines (ustr ''x = (\<newline>'')) \<noteq> None"
    by (simp add: example_ext_def accepting_def ustr_def)
  from failed_validation_keeps_patch [OF c x m r t e b] show ?thesis
    unfolding p by simp
qed

text \<open>
  C4 as stated fails: the suggester answers \<^verbatim>\<open>x = (\<close> for line 1 of a file that
  holds \<^verbatim>\<open>x = 1\<close>; the patch is written, the validation after it fails, and the file
  is left with the text that does not compile instead of the text it had.
\<close>

theorem failed_validation_counterexample:
  "files (one_file (ustr ''./a.py'') (ustr ''x = 1\<newline>'')) (ustr ''./a.py'')
     = Some (Text (ustr ''x = 1\<newline>'')) \<and>
   fst (apply_fix_to_warning (example_ext [ustr ''x = 1\<newline>''] [] (ustr ''x = (''))
          (pylint_fix ''consider-using-in'' ''R1714'' LINE) (a_warning 1 ''R1714'')
          (one_file (ustr ''./a.py'') (ustr ''x = 1\<newline>''))) = Inl AssertionError \<and>
   files (snd (apply_fix_to_warning (example_ext [ustr ''x = 1\<newline>''] [] (ustr ''x = (''))
          (pylint_fix ''consider-using-in'' ''R1714'' LINE) (a_warning 1 ''R1714'')
          (one_file (ustr ''./a.py'') (ustr ''x = 1\<newline>'')))) (ustr ''./a.py'')
     = Some (Text (ustr ''x = (\<newline>'')) \<and>
   \<not> fst (check_python_file (example_ext [ustr ''x = 1\<newline>''] [] (ustr ''x = ('')) (ustr ''./a.py'')
          (snd (apply_fix_to_warning (example_ext [ustr ''x = 1\<newline>''] [] (ustr ''x = (''))
          (pylint_fix ''consider-using-in'' ''R1714'' LINE) (a_warning 1 ''R1714'')
          (one_file (ustr ''./a.py'') (ustr ''x = 1\<newline>'')))))"
proof -
  let ?ext = "example_ext [ustr ''x = 1\<newline>''] [] (ustr ''x = ('')"
  let ?w = "one_file (ustr ''./a.py'') (ustr ''x = 1\<newline>'')"
  let ?fix = "pylint_fix ''consider-using-in'' ''R1714'' LINE"
  let ?path = "ustr ''./'' @ py_replace backslash slash (file_path (a_warning 1 ''R1714''))"
  let ?w' = "snd (apply_fix_to_warning ?ext ?fix (a_warning 1 ''R1714'') ?w)"
  have p: "?path = ustr ''./a.py''"
    by (simp add: a_warning_def py_replace_def ustr_def)
  have r: "read_file ?w ?path = Inr (ustr ''x = 1\<newline>'')"
    unfolding p by (simp add: read_file_def one_file_def ustr_def)
  have c: "fst (check_python_file ?ext ?path ?w)"
    unfolding check_python_file_fst r by (simp add: example_ext_def accepting_def)
  have x: "fst (extract_code_from_context ?ext ?path (line_number (a_warning 1 ''R1714''))
                  (fix_context ?fix) ?w) = Inr (ustr ''x = 1\<newline>'', 1, 1)"
    unfolding extract_code_from_context_def extract_line_def r
    by (simp add: pylint_fix_def a_warning_def py_index_def ustr_def)
  have m: "messages_create ?ext (fix_prompt ?fix)
             (error_message (a_warning 1 ''R1714'') @ [nl] @ ustr ''x = 1\<newline>'') = Inr (ustr ''x = ('')"
    by (simp add: example_ext_def)
  have s: "re_search (ustr ''x = ('') = None"
    by (simp add: match_here_def python_fence_def fence_def text_eval)
  have t: "ustr ''x = (\<newline>'' = concat (replace_lines (readlines (ustr ''x = 1\<newline>''))
           (add_indentation (case re_search (ustr ''x = ('') of Some g \<Rightarrow> g | None \<Rightarrow> ustr ''x = ('')
              (get_starting_indentation (ustr ''x = 1\<newline>''))) 1 1)"
    unfolding s
    by (simp add: replace_lines_def py_del_slice_def py_insert_def slice_bound_def text_eval)
  have e: "encodable (ustr ''x = (\<newline>'')"
    by (simp add: encodable_def ustr_def)
  have b: "compile_source ?ext (universal_newlines (ustr ''x = (\<newline>'')) \<noteq> None"
    by (simp add: example_ext_def accepting_def ustr_def)
  have a: "fst (apply_fix_to_warning ?ext ?fix (a_warning 1 ''R1714'') ?w) = Inl AssertionError"
    and f: "files ?w' = (files ?w)(?path \<mapsto> Text (ustr ''x = (\<newline>''))"
    using apply_fix_to_warning_patch [OF c x m r t e] b by simp_all
  have "read_file ?w' (ustr ''./a.py'') = Inr (universal_newlines (ustr ''x = (\<newline>''))"
    unfolding read_file_def f p by (simp add: ustr_def)
  then have "\<not> fst (check_python_file ?ext (ustr ''./a.py'') ?w')"
    unfolding check_python_file_fst using b by simp
  moreover have "files ?w (ustr ''./a.py'') = Some (Text (ustr ''x = 1\<newline>''))"
    by (simp add: one_file_def)
  ultimately show ?thesis
    using a f unfolding p by simp
qed

text \<open>
  C9 (as the code has it). The parser accepts a line of the report exactly when the
  stripped line splits on colons into at least five fields and \<^verbatim>\<open>int\<close> reads the
  second; the warning is made of the first five fields, the fields after them are
  dropped. A line with at least five fields whose second is no integer is skipped with a
  logged warning; a line with fewer than five fields is skipped and nothing is logged.
  No line ends the parse: a report that can be read gives the warnings of all its
  accepted lines, in their order.
\<close>

theorem parse_pylint_warnings_accepts:
  "fst (parse_lines ext lines [] w) =
     map (\<lambda>line. \<lparr>file_path = py_strip (split_on colon (py_strip line) ! 0),
                     line_number = the (int_of ext (split_on colon (py_strip line) ! 1)),
                     character = py_strip (split_on colon (py_strip line) ! 2),
                     error_code = py_strip (split_on colon (py_strip line) ! 3),
                     error_message = py_strip (split_on colon (py_strip line) ! 4)\<rparr>)
       (filter (\<lambda>line. 5 \<le> length (split_on colon (py_strip line)) \<and>
                       int_of ext (split_on colon (py_strip line) ! 1) \<noteq> None) lines) \<and>
   logs (snd (parse_lines ext lines [] w)) =
     logs w @ map (\<lambda>line. (WARNING, ''Skipping line due to parsing error: {line}'', [S line]))
       (filter (\<lambda>line. 5 \<le> length (split_on colon (py_strip line)) \<and>
                       int_of ext (split_on colon (py_strip line) ! 1) = None) lines) \<and>
   (\<forall>text. read_file w path = Inr text \<longrightarrow>
      parse_pylint_warnings ext path w = (Inr (fst (parse_lines ext (readlines text) [] w)),
                                          snd (parse_lines ext (readlines text) [] w)))"
  by (simp add: parse_lines_result parse_pylint_warnings_def)

theorem parse_pylint_warnings_accepts_witness:
  "read_file (one_file (ustr ''r.txt'') (ustr ''a.py:1:0: C0103: msg: more\<newline>b.py:x:0: C0103: msg\<newline>''))
     (ustr ''r.txt'') = Inr (ustr ''a.py:1:0: C0103: msg: more\<newline>b.py:x:0: C0103: msg\<newline>'') \<and>
   fst (parse_pylint_warnings (example_ext [] [] []) (ustr ''r.txt'')
     (one_file (ustr ''r.txt'') (ustr ''a.py:1:0: C0103: msg: more\<newline>b.py:x:0: C0103: msg\<newline>''))) =
     Inr [\<lparr>file_path = ustr ''a.py'', line_number = 1, character = ustr ''0'',
           error_code = ustr ''C0103'', error_message = ustr ''msg''\<rparr>] \<and>
   logs (snd (parse_pylint_warnings (example_ext [] [] []) (ustr ''r.txt'')
     (one_file (ustr ''r.txt'') (ustr ''a.py:1:0: C0103: msg: more\<newline>b.py:x:0: C0103: msg\<newline>'')))) =
     [(WARNING, ''Skipping line due to parsing error: {line}'', [S (ustr ''b.py:x:0: C0103: msg\<newline>'')])]"
proof -
  let ?ext = "example_ext [] [] []"
  let ?text = "ustr ''a.py:1:0: C0103: msg: more\<newline>b.py:x:0: C0103: msg\<newline>''"
  let ?w = "one_file (ustr ''r.txt'') ?text"
  have r: "read_file ?w (ustr ''r.txt'') = Inr ?text"
    by (simp add: read_file_def one_file_def ustr_def)
  have l: "readlines ?text = [ustr ''a.py:1:0: C0103: msg: more\<newline>'', ustr ''b.py:x:0: C0103: msg\<newline>'']"
    by (simp add: ustr_def)
  have s1: "split_on colon (py_strip (ustr ''a.py:1:0: C0103: msg: more\<newline>'')) =
              [ustr ''a.py'', ustr ''1'', ustr ''0'', ustr '' C0103'', ustr '' msg'', ustr '' more'']"
    by (simp add: split_on_Cons_once text_eval del: split_on.simps(2))
  have s2: "split_on colon (py_strip (ustr ''b.py:x:0: C0103: msg\<newline>'')) =
              [ustr ''b.py'', ustr ''x'', ustr ''0'', ustr '' C0103'', ustr '' msg'']"
    by (simp add: split_on_Cons_once text_eval del: split_on.simps(2))
  have i: "int_of ?ext (ustr ''1'') = Some 1" "int_of ?ext (ustr ''x'') = None"
    by (simp_all add: example_ext_def reading_def ustr_def)
  have t: "py_strip (ustr ''a.py'') = ustr ''a.py''" "py_strip (ustr ''0'') = ustr ''0''"
    "py_strip (ustr '' C0103'') = ustr ''C0103''" "py_strip (ustr '' msg'') = ustr ''msg''"
    by (simp_all add: text_eval)
  note p = parse_pylint_warnings_accepts [of ?ext _ ?w "ustr ''r.txt''"]
  note p1 = p [THEN conjunct1] and p2 = p [THEN conjunct2, THEN conjunct1]
    and p3 = p [THEN conjunct2, THEN conjunct2, rule_format, OF r]
  have "fst (parse_pylint_warnings ?ext (ustr ''r.txt'') ?w) =
     Inr [\<lparr>file_path = ustr ''a.py'', line_number = 1, character = ustr ''0'',
           error_code = ustr ''C0103'', error_message = ustr ''msg''\<rparr>]"
    unfolding p3 fst_conv p1 l by (simp add: s1 s2 i t)
  moreover have "logs (snd (parse_pylint_warnings ?ext (ustr ''r.txt'') ?w)) =
     [(WARNING, ''Skipping line due to parsing error: {line}'', [S (ustr ''b.py:x:0: C0103: msg\<newline>'')])]"
    unfolding p3 snd_conv p2 l by (simp add: s1 s2 i one_file_def)
  ultimately show ?thesis using r by simp
qed

text \<open>
  C9 as stated fails: a line with fewer than five fields is skipped and no warning is
  logged; and a line with six fields is accepted, its last field dropped.
\<close>

theorem parse_pylint_warnings_counterexample:
  "parse_pylint_warnings (example_ext [] [] []) (ustr ''r.txt'')
     (one_file (ustr ''r.txt'') (ustr ''a.py:1:0: C0103: msg: more\<newline>hello\<newline>'')) =
     (Inr [\<lparr>file_path = ustr ''a.py'', line_number = 1, character = ustr ''0'',
            error_code = ustr ''C0103'', error_message = ustr ''msg''\<rparr>],
      one_file (ustr ''r.txt'') (ustr ''a.py:1:0: C0103: msg: more\<newline>hello\<newline>'')) \<and>
   logs (one_file (ustr ''r.txt'') (ustr ''a.py:1:0: C0103: msg: more\<newline>hello\<newline>'')) = [] \<and>
   length (split_on colon (py_strip (ustr ''a.py:1:0: C0103: msg: more\<newline>''))) = 6 \<and>
   length (split_on colon (py_strip (ustr ''hello\<newline>''))) = 1"
proof -
  let ?ext = "example_ext [] [] []"
  let ?text = "ustr ''a.py:1:0: C0103: msg: more\<newline>hello\<newline>''"
  let ?w = "one_file (ustr ''r.txt'') ?text"
  have r: "read_file ?w (ustr ''r.txt'') = Inr ?text"
    by (simp add: read_file_def one_file_def ustr_def)
  have l: "readlines ?text = [ustr ''a.py:1:0: C0103: msg: more\<newline>'', ustr ''hello\<newline>'']"
    by (simp add: ustr_def)
  have s1: "split_on colon (py_strip (ustr ''a.py:1:0: C0103: msg: more\<newline>'')) =
              [ustr ''a.py'', ustr ''1'', ustr ''0'', ustr '' C0103'', ustr '' msg'', ustr '' more'']"
    by (simp add: split_on_Cons_once text_eval del: split_on.simps(2))
  have s2: "split_on colon (py_strip (ustr ''hello\<newline>'')) = [ustr ''hello'']"
    by (simp add: split_on_Cons_once text_eval del: split_on.simps(2))
  have i: "int_of ?ext (ustr ''1'') = Some 1"
    by (simp add: example_ext_def reading_def ustr_def)
  have t: "py_strip (ustr ''a.py'') = ustr ''a.py''" "py_strip (ustr ''0'') = ustr ''0''"
    "py_strip (ustr '' C0103'') = ustr ''C0103''" "py_strip (ustr '' msg'') = ustr ''msg''"
    by (simp_all add: text_eval)
  have "parse_pylint_warnings ?ext (ustr ''r.txt'') ?w =
     (Inr [\<lparr>file_path = ustr ''a.py'', line_number = 1, character = ustr ''0'',
            error_code = ustr ''C0103'', error_message = ustr ''msg''\<rparr>], ?w)"
    unfolding parse_pylint_warnings_def r sum.case l by (simp add: s1 s2 i t Let_def)
  then show ?thesis
    by (simp add: s1 s2 one_file_def)
qed




text \<open>
  C2 (as the code has it). For a file that is read and parsed and a line held by the
  range of a \<^verbatim>\<open>def\<close> of the tree, \<^verbatim>\<open>extract_method_from_line\<close> returns the span of the
  first such \<^verbatim>\<open>def\<close> that \<^verbatim>\<open>ast.walk\<close> yields, which goes through the tree level by
  level: it is the first one, from left to right, at the least depth that has one, so
  none of the definitions around it holds the line: it is the outermost, not the
  innermost. The span is the text of the lines \<^verbatim>\<open>lineno\<close> to \<^verbatim>\<open>end_lineno\<close> of the
  source, both included, with these two numbers.
\<close>

theorem extract_method_outermost:
  assumes "read_file w path = Inr source" and "ast_parse ext source = Inr tree"
    and "m \<in> set (level j tree)" and "encloses lno m"
  shows "\<exists>n k. extract_method_from_line ext path lno w =
                 (Inr (join [nl] (py_slice (split_on nl source) (lineno n - 1) (end_lineno n)),
                       lineno n, end_lineno n), w) \<and>
               find (encloses lno) (level k tree) = Some n \<and> k \<le> j \<and>
               (\<forall>i < k. \<forall>x \<in> set (level i tree). \<not> encloses lno x)"
proof -
  have "find (encloses lno) (walk tree) \<noteq> None"
    unfolding walk_def using assms(3,4) unfolding level_def by (rule find_walk_queue_some)
  then obtain n where n: "find (encloses lno) (walk tree) = Some n"
    by blast
  then have "find (encloses lno) (walk_queue [tree]) = Some n"
    by (simp add: walk_def)
  from find_walk_queue_first [OF this] obtain k
    where k: "find (encloses lno) (level k tree) = Some n"
      and e: "\<forall>i < k. \<forall>x \<in> set (level i tree). \<not> encloses lno x"
    unfolding level_def by blast
  have "k \<le> j"
  proof (rule ccontr)
    assume "\<not> k \<le> j"
    then have "j < k" by simp
    with e assms(3,4) show False by blast
  qed
  moreover have "extract_method_from_line ext path lno w =
                 (Inr (join [nl] (py_slice (split_on nl source) (lineno n - 1) (end_lineno n)),
                       lineno n, end_lineno n), w)"
    using assms(1,2) n by (simp add: extract_method_from_line_def)
  ultimately show ?thesis
    using k e by blast
qed

theorem extract_method_outermost_witness:
  "\<exists>n k. extract_method_from_line (example_ext [] [(nested_source, nested_tree)] [])
            (ustr ''./a.py'') 3 (one_file (ustr ''./a.py'') nested_source) =
            (Inr (join [nl] (py_slice (split_on nl nested_source) (lineno n - 1) (end_lineno n)),
                  lineno n, end_lineno n), one_file (ustr ''./a.py'') nested_source) \<and>
          find (encloses 3) (level k nested_tree) = Some n \<and> k \<le> 2"
proof -
  have u: "universal_newlines nested_source = nested_source"
    by (simp add: nested_source_def ustr_def)
  have r: "read_file (one_file (ustr ''./a.py'') nested_source) (ustr ''./a.py'') = Inr nested_source"
    by (simp add: read_file_def one_file_def u) (simp add: ustr_def)
  have a: "ast_parse (example_ext [] [(nested_source, nested_tree)] []) nested_source = Inr nested_tree"
    by (simp add: example_ext_def parsing_def)
  have m: "inner_def \<in> set (level 2 nested_tree)"
    by (simp add: level_def child_nodes_def nested_tree_def outer_def_def eval_nat_numeral)
  have e: "encloses 3 inner_def"
    by (simp add: encloses_def inner_def_def)
  from extract_method_outermost [OF r a m e] show ?thesis
    by blast
qed

text \<open>
  C2 as stated fails: for line 3 of the function defined in a function, the innermost
  definition that holds the line is \<^verbatim>\<open>def g\<close>, on lines 2 to 3, and the span returned is
  that of \<^verbatim>\<open>def f\<close>, lines 1 to 4.
\<close>

theorem extract_method_innermost_counterexample:
  "fst (extract_method_from_line (example_ext [] [(nested_source, nested_tree)] [])
          (ustr ''./a.py'') 3 (one_file (ustr ''./a.py'') nested_source)) =
     Inr (ustr ''def f():\<newline>    def g():\<newline>        return 1\<newline>    return g'', 1, 4) \<and>
   inner_def \<in> set (children outer_def) \<and> encloses 3 outer_def \<and> encloses 3 inner_def \<and>
   lineno inner_def = 2 \<and> end_lineno inner_def = 3"
proof -
  have u: "universal_newlines nested_source = nested_source"
    by (simp add: nested_source_def ustr_def)
  have r: "read_file (one_file (ustr ''./a.py'') nested_source) (ustr ''./a.py'') = Inr nested_source"
    by (simp add: read_file_def one_file_def u) (simp add: ustr_def)
  have a: "ast_parse (example_ext [] [(nested_source, nested_tree)] []) nested_source = Inr nested_tree"
    by (simp add: example_ext_def parsing_def)
  have o: "encloses 3 outer_def" and i: "encloses 3 inner_def"
    by (simp_all add: encloses_def outer_def_def inner_def_def)
  have f: "find (encloses 3) (walk nested_tree) = Some outer_def"
    using o by (simp add: walk_def nested_tree_def encloses_def)
  have l: "lineno outer_def = 1" "end_lineno outer_def = 4"
    by (simp_all add: outer_def_def)
  have s: "split_on nl nested_source =
             [ustr ''def f():'', ustr ''    def g():'', ustr ''        return 1'', ustr ''    return g'', []]"
    by (simp add: nested_source_def split_on_Cons_once ustr_def del: split_on.simps(2))
  have "fst (extract_method_from_line (example_ext [] [(nested_source, nested_tree)] [])
          (ustr ''./a.py'') 3 (one_file (ustr ''./a.py'') nested_source)) =
     Inr (ustr ''def f():\<newline>    def g():\<newline>        return 1\<newline>    return g'', 1, 4)"
    unfolding extract_method_from_line_def r sum.case a f option.case l s
    by (simp add: py_slice_def slice_bound_def ustr_def)
  moreover have "inner_def \<in> set (children outer_def)"
    by (simp add: outer_def_def)
  moreover have "lineno inner_def = 2 \<and> end_lineno inner_def = 3"
    by (simp add: inner_def_def)
  ultimately show ?thesis
    using o i by simp
qed
end
